theory Spec2Isabelle
  imports Main
begin

section \<open>Values and log entries\<close>

text \<open>
  The fields of a log entry typed \<open>any\<close> in \<open>options.interface.ts\<close> hold arbitrary
  JavaScript values. On the values modelled here \<open>JSON.stringify\<close> returns normally,
  except that it throws a \<open>TypeError\<close> on a BigInt, wherever it occurs in the value.
  (Cyclic objects make it throw as well; a tree of values has none.)
  Numbers are modelled as integers: no property below depends on a fraction.
\<close>

datatype jsval =
    JUndefined
  | JNull
  | JBool bool
  | JNum int
  | JStr string
  | JBigInt int
  | JArr "jsval list"
  | JObj "(string \<times> jsval) list"

fun stringifiable :: "jsval \<Rightarrow> bool" where
  "stringifiable (JBigInt n) = False"
| "stringifiable (JArr xs) = list_all stringifiable xs"
| "stringifiable (JObj kvs) = list_all (\<lambda>kv. stringifiable (snd kv)) kvs"
| "stringifiable v = True"

record LogEntry =
  timestamp :: string
  http_method :: string
  url :: string
  query :: "jsval option"
  requestHeaders :: "jsval option"
  requestBody :: "jsval option"
  statusCode :: "int option"
  responseBody :: "jsval option"
  executionTimeMs :: "int option"
  error :: "string option"

definition opt_stringifiable :: "jsval option \<Rightarrow> bool" where
  "opt_stringifiable v = (case v of None \<Rightarrow> True | Some x \<Rightarrow> stringifiable x)"

text \<open>\<open>JSON.stringify(logEntry)\<close> returns normally exactly for these entries.\<close>

definition entry_stringifiable :: "LogEntry \<Rightarrow> bool" where
  "entry_stringifiable e =
     (opt_stringifiable (query e) \<and> opt_stringifiable (requestHeaders e) \<and>
      opt_stringifiable (requestBody e) \<and> opt_stringifiable (responseBody e))"

datatype js_error = JsError string string

definition error_name :: "js_error \<Rightarrow> string" where
  "error_name err = (case err of JsError n m \<Rightarrow> n)"

definition error_message :: "js_error \<Rightarrow> string" where
  "error_message err = (case err of JsError n m \<Rightarrow> m)"

definition bigint_TypeError :: js_error where
  "bigint_TypeError = JsError ''TypeError'' ''Do not know how to serialize a BigInt''"

section \<open>Configuration constants (\<open>constants.ts\<close>)\<close>

definition BATCH_SIZE :: int where "BATCH_SIZE = 5"
definition FLUSH_INTERVAL_MS :: nat where "FLUSH_INTERVAL_MS = 5000"
definition HTTP_TIMEOUT_MS :: nat where "HTTP_TIMEOUT_MS = 10000"
definition MAX_RETRIES :: nat where "MAX_RETRIES = 3"
definition RETRY_DELAY_MS :: nat where "RETRY_DELAY_MS = 1000"
definition SHUTDOWN_GRACE_PERIOD_MS :: nat where "SHUTDOWN_GRACE_PERIOD_MS = 5000"

section \<open>The batch queue (\<open>class BatchQueue\<close>)\<close>

record BatchQueue =
  queue :: "LogEntry list"
  isShuttingDown :: bool

definition new_BatchQueue :: BatchQueue where
  "new_BatchQueue = \<lparr>queue = [], isShuttingDown = False\<rparr>"

definition add :: "LogEntry \<Rightarrow> BatchQueue \<Rightarrow> bool \<times> BatchQueue" where
  "add entry q =
     (if isShuttingDown q then (False, q)
      else (True, q\<lparr>queue := queue q @ [entry]\<rparr>))"

definition getAndClear :: "BatchQueue \<Rightarrow> LogEntry list \<times> BatchQueue" where
  "getAndClear q = (queue q, q\<lparr>queue := []\<rparr>)"

definition size_q :: "BatchQueue \<Rightarrow> nat" where
  "size_q q = length (queue q)"

definition isEmpty :: "BatchQueue \<Rightarrow> bool" where
  "isEmpty q = (length (queue q) = 0)"

definition beginShutdown :: "BatchQueue \<Rightarrow> BatchQueue" where
  "beginShutdown q = q\<lparr>isShuttingDown := True\<rparr>"

definition isInShutdown :: "BatchQueue \<Rightarrow> bool" where
  "isInShutdown q = isShuttingDown q"

text \<open>A sequence of \<open>add\<close> calls, with the value each call returned.\<close>

fun add_all :: "LogEntry list \<Rightarrow> BatchQueue \<Rightarrow> bool list \<times> BatchQueue" where
  "add_all [] q = ([], q)"
| "add_all (e # es) q =
     (case add e q of (r, q1) \<Rightarrow>
        (case add_all es q1 of (rs, q2) \<Rightarrow> (r # rs, q2)))"

text \<open>Any call a client can make on the queue, and its effect on the queue.\<close>

datatype queue_call = Add LogEntry | GetAndClear | Size | IsEmpty | BeginShutdown | IsInShutdown

fun call_effect :: "queue_call \<Rightarrow> BatchQueue \<Rightarrow> BatchQueue" where
  "call_effect (Add e) q = snd (add e q)"
| "call_effect GetAndClear q = snd (getAndClear q)"
| "call_effect BeginShutdown q = beginShutdown q"
| "call_effect Size q = q"
| "call_effect IsEmpty q = q"
| "call_effect IsInShutdown q = q"

definition after_calls :: "queue_call list \<Rightarrow> BatchQueue \<Rightarrow> BatchQueue" where
  "after_calls cs q = fold call_effect cs q"

section \<open>The outside world: trace, console and network\<close>

text \<open>
  What the transport does is recorded in a trace, in the order in which it happens:
  \<open>sendBatch\<close> is called with a batch, \<open>sendLog\<close> is called with an entry,
  \<open>fetch\<close> issues the POST of an entry, \<open>this.delay(ms)\<close> waits, \<open>sendLog\<close>
  returns a value. The console holds what was printed: a line of text at a level, or
  the debug print of a label followed by the JSON text of entries.
\<close>

datatype event =
    SendBatchCalled "LogEntry list"
  | SendLogCalled LogEntry
  | Fetch LogEntry
  | Delay nat
  | SendLogReturned LogEntry bool

datatype level = LOG | WARN | ERROR

datatype console_line = Line level string | Dump string "LogEntry list"

record world =
  trace :: "event list"
  console :: "console_line list"

definition new_world :: world where
  "new_world = \<lparr>trace = [], console = []\<rparr>"

definition record_event :: "event \<Rightarrow> world \<Rightarrow> world" where
  "record_event ev w = w\<lparr>trace := trace w @ [ev]\<rparr>"

definition print_line :: "console_line \<Rightarrow> world \<Rightarrow> world" where
  "print_line l w = w\<lparr>console := console w @ [l]\<rparr>"

fun is_Fetch :: "event \<Rightarrow> bool" where
  "is_Fetch (Fetch e) = True"
| "is_Fetch ev = False"

fun is_Delay :: "event \<Rightarrow> bool" where
  "is_Delay (Delay ms) = True"
| "is_Delay ev = False"

fun is_SendBatchCalled :: "event \<Rightarrow> bool" where
  "is_SendBatchCalled (SendBatchCalled es) = True"
| "is_SendBatchCalled ev = False"

fun is_SendLogCalled :: "event \<Rightarrow> bool" where
  "is_SendLogCalled (SendLogCalled e) = True"
| "is_SendLogCalled ev = False"

definition fetch_count :: "world \<Rightarrow> nat" where
  "fetch_count w = length (filter is_Fetch (trace w))"

text \<open>
  What the remote end does with the i-th request the process issues: answer with a
  status, fail at the network level, or stay silent.
\<close>

datatype net_reply = Status nat | ConnectionFailed string | NoReply

type_synonym network = "nat \<Rightarrow> LogEntry \<Rightarrow> net_reply"

text \<open>
  How the promise of \<open>fetch\<close> settles, with the abort controller of \<open>sendLog\<close>: a
  request that gets no reply is aborted after \<open>HTTP_TIMEOUT_MS\<close> and rejects with an
  \<open>AbortError\<close>.
\<close>

definition reply_result :: "net_reply \<Rightarrow> js_error + nat" where
  "reply_result rp =
     (case rp of
        Status st \<Rightarrow> Inr st
      | ConnectionFailed msg \<Rightarrow> Inl (JsError ''TypeError'' msg)
      | NoReply \<Rightarrow> Inl (JsError ''AbortError'' ''This operation was aborted''))"

text \<open>\<open>await fetch(...)\<close>: the request is issued, and the reply to it is awaited.\<close>

definition fetch :: "network \<Rightarrow> LogEntry \<Rightarrow> world \<Rightarrow> (js_error + nat) \<times> world" where
  "fetch net e w = (reply_result (net (fetch_count w) e), record_event (Fetch e) w)"

section \<open>Printing numbers\<close>

function show_nat :: "nat \<Rightarrow> string" where
  "show_nat n =
     (if n < 10 then [char_of (48 + n)]
      else show_nat (n div 10) @ [char_of (48 + n mod 10)])"
  by pat_completeness auto
termination
  by (relation "measure id") auto

declare show_nat.simps [simp del]

definition show_int :: "int \<Rightarrow> string" where
  "show_int i = (if i < 0 then ''-'' @ show_nat (nat (- i)) else show_nat (nat i))"

section \<open>The internal logger (\<open>class InternalLogger\<close>)\<close>

text \<open>
  The logger prints only when its debug flag is set. Lines are modelled as printed to a
  stream that is not a terminal, where the colour functions return their text unchanged.
\<close>

record InternalLogger =
  debugEnabled :: bool

definition prefix :: string where
  "prefix = ''[LogSentinel]''"

definition check_mark :: string where
  "check_mark = [CHR 0xE2, CHR 0x9C, CHR 0x93]"

definition logger_info :: "InternalLogger \<Rightarrow> string \<Rightarrow> world \<Rightarrow> world" where
  "logger_info lg message w =
     (if debugEnabled lg then print_line (Line LOG (prefix @ '' '' @ message)) w else w)"

definition logger_warn :: "InternalLogger \<Rightarrow> string \<Rightarrow> world \<Rightarrow> world" where
  "logger_warn lg message w =
     (if debugEnabled lg then print_line (Line WARN (prefix @ '' '' @ message)) w else w)"

definition logger_error :: "InternalLogger \<Rightarrow> string \<Rightarrow> world \<Rightarrow> world" where
  "logger_error lg message w =
     (if debugEnabled lg then print_line (Line ERROR (prefix @ '' '' @ message)) w else w)"

definition logger_debug :: "InternalLogger \<Rightarrow> string \<Rightarrow> world \<Rightarrow> world" where
  "logger_debug lg message w =
     (if debugEnabled lg then print_line (Line LOG (prefix @ '' '' @ message)) w else w)"

definition logger_success :: "InternalLogger \<Rightarrow> string \<Rightarrow> world \<Rightarrow> world" where
  "logger_success lg message w =
     (if debugEnabled lg
      then print_line (Line LOG (prefix @ '' '' @ check_mark @ '' '' @ message)) w else w)"

section \<open>The HTTP transport (\<open>class HttpClient\<close>)\<close>

record EnvConfig =
  apiKey :: string
  baseUrl :: string
  debug :: bool
  batchSize :: int

record HttpClient =
  config :: EnvConfig
  logger :: InternalLogger
  client_debug :: bool

definition response_ok :: "nat \<Rightarrow> bool" where
  "response_ok status = (200 \<le> status \<and> status \<le> 299)"

text \<open>
  The body of the \<open>try\<close> up to the response: the request body is serialised first, so an
  entry that cannot be serialised throws before any request is issued.
\<close>

definition request :: "network \<Rightarrow> LogEntry \<Rightarrow> world \<Rightarrow> (js_error + nat) \<times> world" where
  "request net e w =
     (if entry_stringifiable e then fetch net e w else (Inl bigint_TypeError, w))"

datatype outcome = Return bool | NextAttempt

text \<open>The rest of the \<open>try\<close> block, once the response has arrived.\<close>

definition on_response :: "HttpClient \<Rightarrow> nat \<Rightarrow> nat \<Rightarrow> world \<Rightarrow> outcome \<times> world" where
  "on_response c attempt status w =
     (if response_ok status then
        (Return True,
         logger_debug (logger c)
           (''Log sent successfully (attempt '' @ show_nat (attempt + 1) @ '')'') w)
      else if status \<ge> 400 \<and> status < 500 then
        (Return False,
         logger_warn (logger c)
           (''Server rejected log with status '' @ show_nat status @ '', not retrying'') w)
      else
        (NextAttempt,
         logger_warn (logger c)
           (''Server error '' @ show_nat status @ '', attempt '' @ show_nat (attempt + 1)
              @ ''/'' @ show_nat (MAX_RETRIES + 1)) w))"

text \<open>The \<open>catch\<close> block.\<close>

definition on_error :: "HttpClient \<Rightarrow> nat \<Rightarrow> js_error \<Rightarrow> world \<Rightarrow> outcome \<times> world" where
  "on_error c attempt err w =
     (let isLastAttempt = (attempt = MAX_RETRIES);
          w1 = (if error_name err = ''AbortError''
                then logger_warn (logger c)
                       (''Request timeout (attempt '' @ show_nat (attempt + 1) @ '')'') w
                else logger_warn (logger c)
                       (''Network error: '' @ error_message err @ '' (attempt ''
                          @ show_nat (attempt + 1) @ ''/'' @ show_nat (MAX_RETRIES + 1)
                          @ '')'') w)
      in if isLastAttempt
         then (Return False,
               logger_error (logger c) ''Failed to send log after all retry attempts'' w1)
         else (NextAttempt, w1))"

text \<open>One iteration of the retry loop without its backoff: the \<open>try\<close> and its \<open>catch\<close>.\<close>

definition attempt_once ::
  "HttpClient \<Rightarrow> network \<Rightarrow> LogEntry \<Rightarrow> nat \<Rightarrow> world \<Rightarrow> outcome \<times> world" where
  "attempt_once c net e attempt w =
     (case request net e w of
        (Inr status, w1) \<Rightarrow> on_response c attempt status w1
      | (Inl err, w1) \<Rightarrow> on_error c attempt err w1)"

definition delay :: "nat \<Rightarrow> world \<Rightarrow> world" where
  "delay ms w = record_event (Delay ms) w"

definition backoff :: "nat \<Rightarrow> world \<Rightarrow> world" where
  "backoff attempt w =
     (if attempt < MAX_RETRIES then delay (RETRY_DELAY_MS * (attempt + 1)) w else w)"

text \<open>The \<open>for\<close> loop of \<open>sendLog\<close>, entered with the loop variable at \<open>attempt\<close>.\<close>

function sendLog_loop ::
  "HttpClient \<Rightarrow> network \<Rightarrow> LogEntry \<Rightarrow> nat \<Rightarrow> world \<Rightarrow> bool \<times> world" where
  "sendLog_loop c net e attempt w =
     (if attempt \<le> MAX_RETRIES then
        (case attempt_once c net e attempt w of
           (Return b, w1) \<Rightarrow> (b, w1)
         | (NextAttempt, w1) \<Rightarrow> sendLog_loop c net e (attempt + 1) (backoff attempt w1))
      else (False, w))"
  by pat_completeness auto
termination
  by (relation "measure (\<lambda>(c, net, e, attempt, w). MAX_RETRIES + 1 - attempt)") auto

declare sendLog_loop.simps [simp del]

text \<open>
  \<open>sendLog\<close>. In debug mode the entry is printed before the loop, outside every \<open>try\<close>;
  the result is \<open>Inl\<close> when the call throws.
\<close>

definition sendLog ::
  "HttpClient \<Rightarrow> network \<Rightarrow> LogEntry \<Rightarrow> world \<Rightarrow> (js_error + bool) \<times> world" where
  "sendLog c net e w =
     (let w0 = record_event (SendLogCalled e) w in
      if client_debug c \<and> \<not> entry_stringifiable e then (Inl bigint_TypeError, w0)
      else
        (let w1 = (if client_debug c
                   then print_line (Dump ''[LogSentinel DEBUG] Sending log:'' [e]) w0 else w0)
         in case sendLog_loop c net e 0 w1 of
              (b, w2) \<Rightarrow> (Inr b, record_event (SendLogReturned e b) w2)))"

text \<open>The \<open>for ... of\<close> loop of \<open>sendBatch\<close>, with the running \<open>successCount\<close>.\<close>

fun sendBatch_loop ::
  "HttpClient \<Rightarrow> network \<Rightarrow> LogEntry list \<Rightarrow> nat \<Rightarrow> world \<Rightarrow> (js_error + nat) \<times> world" where
  "sendBatch_loop c net [] successCount w = (Inr successCount, w)"
| "sendBatch_loop c net (entry # rest) successCount w =
     (case sendLog c net entry w of
        (Inl err, w1) \<Rightarrow> (Inl err, w1)
      | (Inr success, w1) \<Rightarrow>
          sendBatch_loop c net rest (if success then successCount + 1 else successCount) w1)"

text \<open>
  \<open>sendBatch\<close> after it has been called: the debug print of the whole batch, then the
  loop.
\<close>

definition sendBatch_body ::
  "HttpClient \<Rightarrow> network \<Rightarrow> LogEntry list \<Rightarrow> world \<Rightarrow> (js_error + nat) \<times> world" where
  "sendBatch_body c net logEntries w =
     (if client_debug c \<and> length logEntries > 0 then
        (if list_all entry_stringifiable logEntries
         then sendBatch_loop c net logEntries 0
                (print_line (Dump ''[LogSentinel DEBUG] Sending batch:'' logEntries) w)
         else (Inl bigint_TypeError, w))
      else sendBatch_loop c net logEntries 0 w)"

definition sendBatch ::
  "HttpClient \<Rightarrow> network \<Rightarrow> LogEntry list \<Rightarrow> world \<Rightarrow> (js_error + nat) \<times> world" where
  "sendBatch c net logEntries w =
     sendBatch_body c net logEntries (record_event (SendBatchCalled logEntries) w)"

section \<open>The transport across its first \<open>await\<close>\<close>

text \<open>
  A caller that does not await \<open>sendBatch\<close> at once gets control back when the call
  reaches its first \<open>await\<close>; up to there \<open>sendBatch\<close> and the \<open>sendLog\<close> call for the
  first entry run inside the caller's own turn. Where the first \<open>sendLog\<close> call stops:
  at \<open>await fetch(...)\<close> with the request issued, at the \<open>await this.delay(...)\<close> of
  the backoff (the entry could not be serialised, which the \<open>catch\<close> has handled), or not
  at all, because it has thrown or returned.
\<close>

datatype sendLog_stop = AwaitsReply | AwaitsTimer | SendLogSettled "js_error + bool"

definition sendLog_begin :: "HttpClient \<Rightarrow> LogEntry \<Rightarrow> world \<Rightarrow> sendLog_stop \<times> world" where
  "sendLog_begin c e w =
     (let w0 = record_event (SendLogCalled e) w in
      if client_debug c \<and> \<not> entry_stringifiable e then (SendLogSettled (Inl bigint_TypeError), w0)
      else
        (let w1 = (if client_debug c
                   then print_line (Dump ''[LogSentinel DEBUG] Sending log:'' [e]) w0 else w0)
         in if entry_stringifiable e then (AwaitsReply, record_event (Fetch e) w1)
            else
              (case on_error c 0 bigint_TypeError w1 of
                 (Return b, w2) \<Rightarrow>
                   (SendLogSettled (Inr b), record_event (SendLogReturned e b) w2)
               | (NextAttempt, w2) \<Rightarrow> (AwaitsTimer, backoff 0 w2))))"

text \<open>
  The rest of that \<open>sendLog\<close> call. The request it waits for is the last one issued, so
  its reply is the one for request number \<open>fetch_count w - 1\<close>.
\<close>

definition sendLog_finish ::
  "HttpClient \<Rightarrow> network \<Rightarrow> LogEntry \<Rightarrow> sendLog_stop \<Rightarrow> world
     \<Rightarrow> (js_error + bool) \<times> world" where
  "sendLog_finish c net e stopped w =
     (case stopped of
        SendLogSettled r \<Rightarrow> (r, w)
      | AwaitsTimer \<Rightarrow>
          (case sendLog_loop c net e 1 w of
             (b, w1) \<Rightarrow> (Inr b, record_event (SendLogReturned e b) w1))
      | AwaitsReply \<Rightarrow>
          (case (case reply_result (net (fetch_count w - 1) e) of
                   Inr status \<Rightarrow> on_response c 0 status w
                 | Inl err \<Rightarrow> on_error c 0 err w) of
             (Return b, w1) \<Rightarrow> (Inr b, record_event (SendLogReturned e b) w1)
           | (NextAttempt, w1) \<Rightarrow>
               (case sendLog_loop c net e 1 (backoff 0 w1) of
                  (b, w2) \<Rightarrow> (Inr b, record_event (SendLogReturned e b) w2))))"

text \<open>
  Where \<open>sendBatch\<close> stops after it has been called: it has settled (it threw while
  printing the batch in debug mode, or the batch was empty), or it waits for its first
  \<open>sendLog\<close> call.
\<close>

datatype sendBatch_stop = SendBatchSettled "js_error + nat" | InFirstCall sendLog_stop

definition sendBatch_begin ::
  "HttpClient \<Rightarrow> LogEntry list \<Rightarrow> world \<Rightarrow> sendBatch_stop \<times> world" where
  "sendBatch_begin c logEntries w =
     (if client_debug c \<and> length logEntries > 0 \<and> \<not> list_all entry_stringifiable logEntries
      then (SendBatchSettled (Inl bigint_TypeError), w)
      else
        (let w1 = (if client_debug c \<and> length logEntries > 0
                   then print_line (Dump ''[LogSentinel DEBUG] Sending batch:'' logEntries) w
                   else w)
         in case logEntries of
              [] \<Rightarrow> (SendBatchSettled (Inr 0), w1)
            | entry # rest \<Rightarrow>
                (case sendLog_begin c entry w1 of (stopped, w2) \<Rightarrow> (InFirstCall stopped, w2))))"

definition sendBatch_finish ::
  "HttpClient \<Rightarrow> network \<Rightarrow> LogEntry list \<Rightarrow> sendBatch_stop \<Rightarrow> world
     \<Rightarrow> (js_error + nat) \<times> world" where
  "sendBatch_finish c net logEntries stopped w =
     (case stopped of
        SendBatchSettled r \<Rightarrow> (r, w)
      | InFirstCall first \<Rightarrow>
          (case logEntries of
             [] \<Rightarrow> (Inr 0, w)
           | entry # rest \<Rightarrow>
               (case sendLog_finish c net entry first w of
                  (Inl err, w1) \<Rightarrow> (Inl err, w1)
                | (Inr success, w1) \<Rightarrow>
                    sendBatch_loop c net rest (if success then 0 + 1 else 0) w1)))"

section \<open>The batch flusher (\<open>class BatchFlusher\<close>)\<close>

text \<open>
  \<open>awaiting\<close> belongs to a \<open>flush\<close> that is suspended at
  \<open>await this.httpClient.sendBatch(entries)\<close>: its local \<open>entries\<close>, and where the
  \<open>sendBatch\<close> call it waits for has stopped. At most one flush is suspended at a time.
\<close>

record BatchFlusher =
  httpClient :: HttpClient
  flusher_logger :: InternalLogger
  flusher_batchSize :: int
  intervalHandle :: "nat option"
  isRunning :: bool
  flushInProgress :: bool
  awaiting :: "(LogEntry list \<times> sendBatch_stop) option"

definition new_BatchFlusher :: "HttpClient \<Rightarrow> InternalLogger \<Rightarrow> int \<Rightarrow> BatchFlusher" where
  "new_BatchFlusher client lg n =
     \<lparr>httpClient = client, flusher_logger = lg, flusher_batchSize = n,
      intervalHandle = None, isRunning = False, flushInProgress = False, awaiting = None\<rparr>"

text \<open>
  The flusher together with the queue object it was constructed with. The interceptor and
  the SDK hold the same queue object, so every access goes through \<open>the_queue\<close>.
\<close>

record runtime =
  the_queue :: BatchQueue
  the_flusher :: BatchFlusher

text \<open>
  \<open>start\<close> and \<open>stop\<close>. \<open>FLUSH_INTERVAL_MS\<close> is defined, so the fallback interval of
  \<open>start\<close> is never taken.
\<close>

definition start :: "runtime \<Rightarrow> world \<Rightarrow> runtime \<times> world" where
  "start r w =
     (if isRunning (the_flusher r) then (r, w)
      else
        (let intervalMs = FLUSH_INTERVAL_MS in
         (r\<lparr>the_flusher := (the_flusher r)\<lparr>isRunning := True, intervalHandle := Some intervalMs\<rparr>\<rparr>,
          logger_info (flusher_logger (the_flusher r))
            (''Batch flusher started (interval: '' @ show_nat intervalMs @ ''ms)'') w)))"

definition stop :: "runtime \<Rightarrow> world \<Rightarrow> runtime \<times> world" where
  "stop r w =
     (r\<lparr>the_flusher := (the_flusher r)\<lparr>intervalHandle := None, isRunning := False\<rparr>\<rparr>,
      logger_info (flusher_logger (the_flusher r)) ''Batch flusher stopped'' w)"

text \<open>
  \<open>flush\<close> up to the point where it either returns or suspends at its \<open>await\<close>. With an
  empty queue the guard is taken and released by the \<open>finally\<close> within the same call.
  Otherwise \<open>sendBatch\<close> is called and runs up to its first \<open>await\<close> before \<open>flush\<close>
  suspends.
\<close>

definition flush :: "runtime \<Rightarrow> world \<Rightarrow> runtime \<times> world" where
  "flush r w =
     (if flushInProgress (the_flusher r) then (r, w)
      else
        (case getAndClear (the_queue r) of
           (entries, q1) \<Rightarrow>
             if length entries = 0 then
               (r\<lparr>the_queue := q1,
                  the_flusher := (the_flusher r)\<lparr>flushInProgress := False\<rparr>\<rparr>, w)
             else
               (case sendBatch_begin (httpClient (the_flusher r)) entries
                       (record_event (SendBatchCalled entries)
                          (logger_debug (flusher_logger (the_flusher r))
                             (''Flushing '' @ show_nat (length entries) @ '' log entries'') w)) of
                  (stopped, w1) \<Rightarrow>
                    (r\<lparr>the_queue := q1,
                       the_flusher := (the_flusher r)\<lparr>flushInProgress := True,
                                                      awaiting := Some (entries, stopped)\<rparr>\<rparr>,
                     w1))))"

text \<open>
  The rest of \<open>flush\<close>, run when the awaited \<open>sendBatch\<close> has settled with \<open>result\<close>
  (\<open>Inl\<close>: it rejected): the report, the \<open>catch\<close>, and the \<open>finally\<close>.
\<close>

definition flush_resume :: "js_error + nat \<Rightarrow> runtime \<Rightarrow> world \<Rightarrow> runtime \<times> world" where
  "flush_resume result r w =
     (case awaiting (the_flusher r) of
        None \<Rightarrow> (r, w)
      | Some (entries, stopped) \<Rightarrow>
          (r\<lparr>the_flusher := (the_flusher r)\<lparr>flushInProgress := False, awaiting := None\<rparr>\<rparr>,
           case result of
             Inr successCount \<Rightarrow>
               if successCount = length entries then
                 logger_success (flusher_logger (the_flusher r))
                   (''Successfully sent '' @ show_nat successCount @ '' logs'') w
               else
                 logger_warn (flusher_logger (the_flusher r))
                   (''Sent '' @ show_nat successCount @ ''/'' @ show_nat (length entries)
                      @ '' logs ('' @ show_int (int (length entries) - int successCount)
                      @ '' failed)'') w
           | Inl err \<Rightarrow>
               logger_error (flusher_logger (the_flusher r))
                 (''Unexpected error during flush: '' @ error_message err) w))"

text \<open>
  The transport works through the rest of the awaited \<open>sendBatch\<close> call, and the
  suspended flush resumes.
\<close>

definition settle :: "network \<Rightarrow> runtime \<Rightarrow> world \<Rightarrow> runtime \<times> world" where
  "settle net r w =
     (case awaiting (the_flusher r) of
        None \<Rightarrow> (r, w)
      | Some (entries, stopped) \<Rightarrow>
          (case sendBatch_finish (httpClient (the_flusher r)) net entries stopped w of
             (result, w1) \<Rightarrow> flush_resume result r w1))"

definition checkAndFlush :: "runtime \<Rightarrow> world \<Rightarrow> runtime \<times> world" where
  "checkAndFlush r w =
     (if flushInProgress (the_flusher r) then (r, w)
      else
        (let queueSize = size_q (the_queue r) in
         if int queueSize \<ge> flusher_batchSize (the_flusher r) then flush r w else (r, w)))"

definition manualFlush :: "runtime \<Rightarrow> world \<Rightarrow> runtime \<times> world" where
  "manualFlush r w = flush r w"

definition isFlushInProgress :: "runtime \<Rightarrow> bool" where
  "isFlushInProgress r = flushInProgress (the_flusher r)"

text \<open>The callback of the interval timer; it runs only while the timer is set.\<close>

definition tick :: "runtime \<Rightarrow> world \<Rightarrow> runtime \<times> world" where
  "tick r w = (case intervalHandle (the_flusher r) of None \<Rightarrow> (r, w) | Some ms \<Rightarrow> checkAndFlush r w)"

text \<open>
  What can happen to a running flusher, one event at a time: a client enqueues an entry,
  the timer fires, a flush is requested, the awaited batch settles.
\<close>

datatype action = Enqueue LogEntry | Tick | ManualFlush | Settle | Start | Stop

fun step :: "network \<Rightarrow> action \<Rightarrow> runtime \<times> world \<Rightarrow> runtime \<times> world" where
  "step net (Enqueue e) (r, w) = (r\<lparr>the_queue := snd (add e (the_queue r))\<rparr>, w)"
| "step net Tick (r, w) = tick r w"
| "step net ManualFlush (r, w) = manualFlush r w"
| "step net Settle (r, w) = settle net r w"
| "step net Start (r, w) = start r w"
| "step net Stop (r, w) = stop r w"

definition run :: "network \<Rightarrow> action list \<Rightarrow> runtime \<times> world \<Rightarrow> runtime \<times> world" where
  "run net acts s = fold (step net) acts s"

definition sendBatch_calls :: "world \<Rightarrow> LogEntry list list" where
  "sendBatch_calls w =
     concat (map (\<lambda>ev. case ev of SendBatchCalled es \<Rightarrow> [es] | _ \<Rightarrow> []) (trace w))"

section \<open>Loading the configuration (\<open>environment.ts\<close>)\<close>

record process_env =
  LOGSENTINEL_API_KEY :: "string option"
  LOGSENTINEL_BASE_URL :: "string option"
  LOGSENTINEL_DEBUG :: "string option"
  LOGSENTINEL_BATCH_SIZE :: "string option"

text \<open>
  Strings are sequences of bytes, in UTF-8. The white space that \<open>String.prototype.trim\<close>
  and \<open>parseInt\<close> skip is the code points of \<open>WhiteSpace\<close> and \<open>LineTerminator\<close>:
  U+0009 to U+000D, U+0020, U+00A0, U+1680, U+2000 to U+200A, U+2028, U+2029, U+202F,
  U+205F, U+3000 and U+FEFF, here as their byte sequences.
\<close>

definition js_white_space :: "string list" where
  "js_white_space =
     [[CHR 0x09], [CHR 0x0A], [CHR 0x0B], [CHR 0x0C], [CHR 0x0D], [CHR 0x20],
      [CHR 0xC2, CHR 0xA0],
      [CHR 0xE1, CHR 0x9A, CHR 0x80],
      [CHR 0xE2, CHR 0x80, CHR 0x80], [CHR 0xE2, CHR 0x80, CHR 0x81],
      [CHR 0xE2, CHR 0x80, CHR 0x82], [CHR 0xE2, CHR 0x80, CHR 0x83],
      [CHR 0xE2, CHR 0x80, CHR 0x84], [CHR 0xE2, CHR 0x80, CHR 0x85],
      [CHR 0xE2, CHR 0x80, CHR 0x86], [CHR 0xE2, CHR 0x80, CHR 0x87],
      [CHR 0xE2, CHR 0x80, CHR 0x88], [CHR 0xE2, CHR 0x80, CHR 0x89],
      [CHR 0xE2, CHR 0x80, CHR 0x8A],
      [CHR 0xE2, CHR 0x80, CHR 0xA8], [CHR 0xE2, CHR 0x80, CHR 0xA9],
      [CHR 0xE2, CHR 0x80, CHR 0xAF],
      [CHR 0xE2, CHR 0x81, CHR 0x9F],
      [CHR 0xE3, CHR 0x80, CHR 0x80],
      [CHR 0xEF, CHR 0xBB, CHR 0xBF]]"

text \<open>The number of bytes of the pattern that \<open>s\<close> starts with; 0 when it starts with none.\<close>

definition leading_length :: "string list \<Rightarrow> string \<Rightarrow> nat" where
  "leading_length pats s =
     (case filter (\<lambda>p. p \<noteq> [] \<and> take (length p) s = p) pats of
        [] \<Rightarrow> 0
      | p # ps \<Rightarrow> length p)"

function strip_leading :: "string list \<Rightarrow> string \<Rightarrow> string" where
  "strip_leading pats s =
     (if leading_length pats s = 0 then s
      else strip_leading pats (drop (leading_length pats s) s))"
  by pat_completeness auto
termination
proof (relation "measure (\<lambda>(pats, s). length s)")
  show "wf (measure (\<lambda>(pats, s). length s))"
    by simp
next
  fix pats :: "string list" and s :: string
  assume pos: "leading_length pats s \<noteq> 0"
  have "s \<noteq> []"
  proof
    assume "s = []"
    then have "filter (\<lambda>p. p \<noteq> [] \<and> take (length p) s = p) pats = []"
      by (induction pats) auto
    then show False
      using pos by (simp add: leading_length_def)
  qed
  then show "((pats, drop (leading_length pats s) s), (pats, s))
               \<in> measure (\<lambda>(pats, s). length s)"
    using pos by simp
qed

declare strip_leading.simps [simp del]

definition trimStart :: "string \<Rightarrow> string" where
  "trimStart s = strip_leading js_white_space s"

definition trimEnd :: "string \<Rightarrow> string" where
  "trimEnd s = rev (strip_leading (map rev js_white_space) (rev s))"

definition trim :: "string \<Rightarrow> string" where
  "trim s = trimEnd (trimStart s)"

definition is_digit :: "char \<Rightarrow> bool" where
  "is_digit ch = (48 \<le> (of_char ch :: nat) \<and> (of_char ch :: nat) \<le> 57)"

fun digits_value :: "nat \<Rightarrow> string \<Rightarrow> nat" where
  "digits_value acc [] = acc"
| "digits_value acc (d # ds) = digits_value (10 * acc + (of_char d - 48)) ds"

text \<open>
  A JavaScript number holding an integer is a double: an integer of more than 53 bits is
  rounded to 53 significant bits, to the nearest, a tie going to the even neighbour.
  (From \<open>2 ^ 1024\<close> on the platform's number is infinite, which an integer does not
  show; and a platform may round a decimal of more than 20 digits less exactly.)
\<close>

function bit_length :: "nat \<Rightarrow> nat" where
  "bit_length n = (if n = 0 then 0 else Suc (bit_length (n div 2)))"
  by pat_completeness auto
termination
  by (relation "measure id") auto

declare bit_length.simps [simp del]

definition round_to_double :: "nat \<Rightarrow> nat" where
  "round_to_double n =
     (if bit_length n \<le> 53 then n
      else
        (let k = bit_length n - 53;
             q = n div 2 ^ k;
             r = n mod 2 ^ k;
             half = 2 ^ (k - 1)
         in (if r > half \<or> (r = half \<and> odd q) then q + 1 else q) * 2 ^ k))"

text \<open>\<open>parseInt(s, 10)\<close>; \<open>None\<close> is \<open>NaN\<close>.\<close>

definition parseInt :: "string \<Rightarrow> int option" where
  "parseInt s =
     (let t = trimStart s;
          negative = (t \<noteq> [] \<and> hd t = CHR ''-'');
          u = (if t \<noteq> [] \<and> (hd t = CHR ''-'' \<or> hd t = CHR ''+'') then tl t else t);
          ds = takeWhile is_digit u;
          magnitude = int (round_to_double (digits_value 0 ds))
      in if ds = [] then None
         else Some (if negative then - magnitude else magnitude))"

definition strip_trailing_slash :: "string \<Rightarrow> string" where
  "strip_trailing_slash s = (if s \<noteq> [] \<and> last s = CHR ''/'' then butlast s else s)"

text \<open>
  \<open>url_parses\<close> stands for the platform's \<open>new URL(baseUrl)\<close> returning normally.
\<close>

definition loadEnvironmentConfig :: "(string \<Rightarrow> bool) \<Rightarrow> process_env \<Rightarrow> EnvConfig option" where
  "loadEnvironmentConfig url_parses env =
     (let debug_flag = (LOGSENTINEL_DEBUG env = Some ''true'');
          size_text = (case LOGSENTINEL_BATCH_SIZE env of
                         None \<Rightarrow> show_int BATCH_SIZE
                       | Some s \<Rightarrow> if s = [] then show_int BATCH_SIZE else s);
          parsed = parseInt size_text
      in case LOGSENTINEL_API_KEY env of
           None \<Rightarrow> None
         | Some key \<Rightarrow>
             if key = [] \<or> trim key = [] then None
             else
               (case LOGSENTINEL_BASE_URL env of
                  None \<Rightarrow> None
                | Some base \<Rightarrow>
                    if base = [] \<or> trim base = [] then None
                    else if \<not> url_parses base then None
                    else
                      Some \<lparr>apiKey = trim key,
                            baseUrl = strip_trailing_slash (trim base),
                            debug = debug_flag,
                            batchSize = (case parsed of
                                           None \<Rightarrow> BATCH_SIZE
                                         | Some n \<Rightarrow> if n < 1 then BATCH_SIZE else n)\<rparr>))"

section \<open>The SDK entry point (\<open>class LogSentinelSDK\<close>)\<close>

record LogSentinelOptions =
  opt_apiKey :: "string option"
  opt_baseUrl :: "string option"
  opt_debug :: "bool option"
  opt_batchSize :: "int option"

text \<open>
  \<open>hooksRegistered\<close> and \<open>graceTimer\<close> stand for what the SDK has handed to the platform:
  the process signal handlers and the pending grace-period timeout of \<open>shutdown\<close>.
\<close>

record LogSentinelSDK =
  options :: "LogSentinelOptions option"
  sdk_logger :: "InternalLogger option"
  sdk_queue :: "BatchQueue option"
  sdk_flusher :: "BatchFlusher option"
  isEnabled :: bool
  sdk_isShuttingDown :: bool
  hooksRegistered :: bool
  graceTimer :: "nat option"

definition new_LogSentinelSDK :: "LogSentinelOptions option \<Rightarrow> LogSentinelSDK" where
  "new_LogSentinelSDK opts =
     \<lparr>options = opts, sdk_logger = None, sdk_queue = None, sdk_flusher = None,
      isEnabled = False, sdk_isShuttingDown = False, hooksRegistered = False,
      graceTimer = None\<rparr>"

definition show_bool :: "bool \<Rightarrow> string" where
  "show_bool b = (if b then ''true'' else ''false'')"

text \<open>
  \<open>install\<close>. \<open>app_fault\<close> is the error thrown by \<open>app.use\<close> or
  \<open>app.useGlobalInterceptors\<close>, if one of them throws.
\<close>

definition install ::
  "(string \<Rightarrow> bool) \<Rightarrow> process_env \<Rightarrow> js_error option \<Rightarrow> LogSentinelSDK \<Rightarrow> world
     \<Rightarrow> LogSentinelSDK \<times> world" where
  "install url_parses env app_fault sdk w =
     (case loadEnvironmentConfig url_parses env of
        None \<Rightarrow>
          (sdk,
           print_line
             (Line WARN
                (''[LogSentinel] SDK disabled: Missing or invalid configuration. '' @
                 ''Please set LOGSENTINEL_API_KEY and LOGSENTINEL_BASE_URL environment variables.''))
             w)
      | Some envConfig \<Rightarrow>
          (let cfg = envConfig
                 \<lparr>debug := (case options sdk of
                              None \<Rightarrow> debug envConfig
                            | Some opts \<Rightarrow>
                                (case opt_debug opts of None \<Rightarrow> debug envConfig | Some d \<Rightarrow> d)),
                  batchSize := (case options sdk of
                                  None \<Rightarrow> batchSize envConfig
                                | Some opts \<Rightarrow>
                                    (case opt_batchSize opts of
                                       None \<Rightarrow> batchSize envConfig | Some n \<Rightarrow> n))\<rparr>;
               lg = \<lparr>debugEnabled = debug cfg\<rparr>;
               w1 = logger_info lg ''Initializing LogSentinel SDK...'' w;
               client = \<lparr>config = cfg, logger = lg, client_debug = debug cfg\<rparr>;
               sdk1 = sdk\<lparr>sdk_logger := Some lg,
                          sdk_queue := Some new_BatchQueue,
                          sdk_flusher := Some (new_BatchFlusher client lg (batchSize cfg))\<rparr>
           in case app_fault of
                Some err \<Rightarrow>
                  (sdk1,
                   print_line (Line WARN ''[LogSentinel] SDK disabled due to initialization error'')
                     (logger_error lg (''Failed to initialize SDK: '' @ error_message err) w1))
              | None \<Rightarrow>
                  (case start \<lparr>the_queue = new_BatchQueue,
                               the_flusher = new_BatchFlusher client lg (batchSize cfg)\<rparr> w1 of
                     (r, w2) \<Rightarrow>
                       (sdk1\<lparr>sdk_queue := Some (the_queue r),
                             sdk_flusher := Some (the_flusher r),
                             hooksRegistered := True,
                             isEnabled := True\<rparr>,
                        logger_info lg
                          (''Batch size: '' @ show_int (batchSize cfg) @ '', Debug mode: ''
                             @ show_bool (debug cfg))
                          (logger_success lg ''LogSentinel SDK initialized successfully'' w2)))))"

definition isActive :: "LogSentinelSDK \<Rightarrow> bool" where
  "isActive sdk = (isEnabled sdk \<and> \<not> sdk_isShuttingDown sdk)"

definition getQueueSize :: "LogSentinelSDK \<Rightarrow> nat" where
  "getQueueSize sdk = (case sdk_queue sdk of None \<Rightarrow> 0 | Some q \<Rightarrow> size_q q)"

text \<open>
  \<open>shutdown\<close> up to its \<open>await Promise.race\<close>, on the queue and the flusher the SDK
  holds: the queue is marked, the interval timer is stopped and the final flush is started.
  The second component tells whether the final flush is suspended, that is, whether the
  race is still open when the call reaches the \<open>await\<close>.
\<close>

definition shutdown_begin :: "runtime \<Rightarrow> world \<Rightarrow> (runtime \<times> bool) \<times> world" where
  "shutdown_begin r w =
     (case stop (r\<lparr>the_queue := beginShutdown (the_queue r)\<rparr>) w of
        (r1, w1) \<Rightarrow>
          (case manualFlush r1 w1 of
             (r2, w2) \<Rightarrow>
               ((r2, \<not> flushInProgress (the_flusher r1) \<and> flushInProgress (the_flusher r2)),
                w2)))"

text \<open>The statements of \<open>shutdown\<close> after the race: the count it reports and its log line.\<close>

definition shutdown_report :: "BatchQueue \<Rightarrow> InternalLogger option \<Rightarrow> world \<Rightarrow> nat \<times> world" where
  "shutdown_report q lg_opt w =
     (let remaining = size_q q in
      (remaining,
       case lg_opt of
         None \<Rightarrow> w
       | Some lg \<Rightarrow>
           if remaining > 0 then
             logger_warn lg
               (''Shutdown complete. '' @ show_nat remaining @ '' logs could not be sent.'') w
           else logger_success lg ''Shutdown complete. All logs flushed successfully.'' w))"

text \<open>
  How the race of \<open>shutdown\<close> ends when the final flush is suspended: the transport
  settles the batch before the grace period is over, or the grace-period timer fires
  while the transport is still where the flush left it, waiting at its first \<open>await\<close>.
\<close>

datatype race = FlushSettlesFirst | GraceTimerFiresFirst

text \<open>
  \<open>shutdown\<close>, from the call to its return; the first component is the count reported
  (\<open>None\<close>: the call returned at its first check and reported nothing). The side that
  loses the race is left as it is: a flush still suspended stays suspended, and the
  grace timer stays set.
\<close>

definition shutdown ::
  "network \<Rightarrow> race \<Rightarrow> LogSentinelSDK \<Rightarrow> world \<Rightarrow> nat option \<times> LogSentinelSDK \<times> world" where
  "shutdown net winner sdk w =
     (if \<not> isEnabled sdk then (None, sdk, w)
      else
        (case sdk_queue sdk of
           None \<Rightarrow> (None, sdk, w)
         | Some q \<Rightarrow>
             (case sdk_flusher sdk of
                None \<Rightarrow> (None, sdk, w)
              | Some f \<Rightarrow>
                  (case shutdown_begin \<lparr>the_queue = q, the_flusher = f\<rparr> w of
                     ((r1, suspended), w1) \<Rightarrow>
                       (case (if suspended \<and> winner = FlushSettlesFirst
                              then settle net r1 w1 else (r1, w1)) of
                          (r2, w2) \<Rightarrow>
                            (case shutdown_report (the_queue r2) (sdk_logger sdk) w2 of
                               (remaining, w3) \<Rightarrow>
                                 (Some remaining,
                                  sdk\<lparr>sdk_queue := Some (the_queue r2),
                                      sdk_flusher := Some (the_flusher r2),
                                      graceTimer := Some SHUTDOWN_GRACE_PERIOD_MS\<rparr>,
                                  w3)))))))"

definition shutdownHandler ::
  "network \<Rightarrow> race \<Rightarrow> string \<Rightarrow> LogSentinelSDK \<Rightarrow> world
     \<Rightarrow> nat option \<times> LogSentinelSDK \<times> world" where
  "shutdownHandler net winner signal sdk w =
     (if sdk_isShuttingDown sdk then (None, sdk, w)
      else
        shutdown net winner (sdk\<lparr>sdk_isShuttingDown := True\<rparr>)
          (case sdk_logger sdk of
             None \<Rightarrow> w
           | Some lg \<Rightarrow>
               logger_info lg (''Received '' @ signal @ '', shutting down gracefully...'') w))"

text \<open>A client of the installed SDK enqueues entries through the shared queue.\<close>

definition sdk_enqueue :: "LogEntry list \<Rightarrow> LogSentinelSDK \<Rightarrow> LogSentinelSDK" where
  "sdk_enqueue es sdk =
     (case sdk_queue sdk of
        None \<Rightarrow> sdk
      | Some q \<Rightarrow> sdk\<lparr>sdk_queue := Some (snd (add_all es q))\<rparr>)"

section \<open>Observations on traces\<close>

fun is_SendLogReturned :: "event \<Rightarrow> bool" where
  "is_SendLogReturned (SendLogReturned e b) = True"
| "is_SendLogReturned ev = False"

text \<open>The calls to \<open>sendLog\<close> and their returns, in the order of the trace.\<close>

definition call_events :: "event list \<Rightarrow> event list" where
  "call_events evs = filter (\<lambda>ev. is_SendLogCalled ev \<or> is_SendLogReturned ev) evs"

definition only_requests_and_waits :: "event list \<Rightarrow> bool" where
  "only_requests_and_waits evs = list_all (\<lambda>ev. is_Fetch ev \<or> is_Delay ev) evs"

text \<open>
  The trace of calls made one at a time for \<open>es\<close>, in order, the i-th call having
  returned \<open>bs ! i\<close> before the next call was made.
\<close>

fun interleave :: "LogEntry list \<Rightarrow> bool list \<Rightarrow> event list" where
  "interleave (e # es) (b # bs) = SendLogCalled e # SendLogReturned e b # interleave es bs"
| "interleave es bs = []"

text \<open>
  A reply that the transport treats as transient: a 5xx status, a failure at the network
  level, or no reply within the request timeout.
\<close>

definition transient :: "net_reply \<Rightarrow> bool" where
  "transient rp =
     (case rp of
        Status st \<Rightarrow> 500 \<le> st \<and> st \<le> 599
      | ConnectionFailed msg \<Rightarrow> True
      | NoReply \<Rightarrow> True)"

section \<open>Example inputs\<close>

definition example_entry :: "string \<Rightarrow> LogEntry" where
  "example_entry path =
     \<lparr>timestamp = ''2024-01-15T10:30:00.000Z'', http_method = ''GET'', url = path,
      query = Some (JObj []), requestHeaders = Some (JObj [(''accept'', JStr ''*/*'')]),
      requestBody = None, statusCode = Some 200, responseBody = Some (JStr ''ok''),
      executionTimeMs = Some 12, error = None\<rparr>"

definition bigint_entry :: LogEntry where
  "bigint_entry = (example_entry ''/count'')\<lparr>responseBody := Some (JBigInt 10)\<rparr>"

definition two_entries :: "LogEntry list" where
  "two_entries = [example_entry ''/a'', example_entry ''/b'']"

definition five_entries :: "LogEntry list" where
  "five_entries =
     [example_entry ''/1'', example_entry ''/2'', example_entry ''/3'',
      example_entry ''/4'', example_entry ''/5'']"

definition example_client :: "bool \<Rightarrow> HttpClient" where
  "example_client d =
     \<lparr>config = \<lparr>apiKey = ''key'', baseUrl = ''https://collector.example'', debug = d,
                 batchSize = 5\<rparr>,
      logger = \<lparr>debugEnabled = d\<rparr>, client_debug = d\<rparr>"

definition recovering_net :: network where
  "recovering_net i e = (if i < 3 then Status 503 else Status 200)"

definition failing_net :: network where
  "failing_net i e = Status 503"

definition silent_net :: network where
  "silent_net i e = NoReply"

definition rejecting_net :: network where
  "rejecting_net i e = Status 404"

definition example_runtime :: "bool \<Rightarrow> LogEntry list \<Rightarrow> runtime" where
  "example_runtime busy held =
     \<lparr>the_queue = \<lparr>queue = held, isShuttingDown = False\<rparr>,
      the_flusher =
        (new_BatchFlusher (example_client False) \<lparr>debugEnabled = False\<rparr> 5)
          \<lparr>intervalHandle := Some FLUSH_INTERVAL_MS, isRunning := True,
           flushInProgress := busy,
           awaiting := (if busy then Some ([example_entry ''/first''], InFirstCall AwaitsReply)
                        else None)\<rparr>\<rparr>"

definition example_env :: process_env where
  "example_env =
     \<lparr>LOGSENTINEL_API_KEY = Some ''key'',
      LOGSENTINEL_BASE_URL = Some ''https://collector.example/'',
      LOGSENTINEL_DEBUG = None,
      LOGSENTINEL_BATCH_SIZE = None\<rparr>"

definition env_without_key :: process_env where
  "env_without_key = example_env\<lparr>LOGSENTINEL_API_KEY := None\<rparr>"

definition any_url :: "string \<Rightarrow> bool" where
  "any_url u = True"

definition debug_env :: process_env where
  "debug_env = example_env\<lparr>LOGSENTINEL_DEBUG := Some ''true''\<rparr>"

definition installed_debug_sdk :: LogSentinelSDK where
  "installed_debug_sdk =
     fst (install any_url debug_env None (new_LogSentinelSDK None) new_world)"

section \<open>Properties of the queue\<close>

lemma add_all_open:
  "\<not> isShuttingDown q \<Longrightarrow>
     add_all es q = (replicate (length es) True, q\<lparr>queue := queue q @ es\<rparr>)"
proof (induction es arbitrary: q)
  case Nil
  then show ?case by simp
next
  case (Cons e es)
  have step: "add e q = (True, q\<lparr>queue := queue q @ [e]\<rparr>)"
    using Cons.prems by (simp add: add_def)
  have still: "\<not> isShuttingDown (q\<lparr>queue := queue q @ [e]\<rparr>)"
    using Cons.prems by simp
  show ?case
    by (simp add: step Cons.IH [OF still])
qed

lemma call_effect_keeps_shutdown:
  "isShuttingDown q \<Longrightarrow> isShuttingDown (call_effect c q)"
  by (cases c) (simp_all add: add_def getAndClear_def beginShutdown_def)

lemma after_calls_keeps_shutdown:
  "isShuttingDown q \<Longrightarrow> isShuttingDown (after_calls cs q)"
  unfolding after_calls_def
  by (induction cs arbitrary: q) (simp_all add: call_effect_keeps_shutdown)

text \<open>
  C6. Drain correctness: after N \<open>add\<close> calls on a fresh queue every call has returned
  true, \<open>getAndClear\<close> returns exactly the N entries in call order, and \<open>size\<close> is 0
  after the drain.
\<close>

theorem drain_returns_adds_in_order:
  "fst (add_all es new_BatchQueue) = replicate (length es) True \<and>
   fst (getAndClear (snd (add_all es new_BatchQueue))) = es \<and>
   size_q (snd (getAndClear (snd (add_all es new_BatchQueue)))) = 0"
proof -
  have fresh: "\<not> isShuttingDown new_BatchQueue"
    by (simp add: new_BatchQueue_def)
  have "add_all es new_BatchQueue =
          (replicate (length es) True, new_BatchQueue\<lparr>queue := queue new_BatchQueue @ es\<rparr>)"
    by (rule add_all_open [OF fresh])
  then show ?thesis
    by (simp add: getAndClear_def size_q_def new_BatchQueue_def)
qed

text \<open>
  C7. Shutdown flag: \<open>beginShutdown\<close> is idempotent, and after a \<open>beginShutdown\<close> call,
  whatever calls are made on the queue afterwards, an \<open>add\<close> returns false and leaves
  the queue as it was: nothing held is dropped and nothing is appended.
\<close>

theorem add_after_beginShutdown_rejected:
  "beginShutdown (beginShutdown q) = beginShutdown q \<and>
   add e (after_calls cs (beginShutdown q)) = (False, after_calls cs (beginShutdown q))"
proof -
  have "isShuttingDown (beginShutdown q)"
    by (simp add: beginShutdown_def)
  then have "isShuttingDown (after_calls cs (beginShutdown q))"
    by (rule after_calls_keeps_shutdown)
  then show ?thesis
    by (simp add: add_def beginShutdown_def)
qed

section \<open>Properties of the transport\<close>

lemma fetch_count_record [simp]:
  "fetch_count (record_event ev w) = (if is_Fetch ev then Suc (fetch_count w) else fetch_count w)"
  by (simp add: fetch_count_def record_event_def)

lemma fetch_count_print [simp]: "fetch_count (print_line l w) = fetch_count w"
  by (simp add: fetch_count_def print_line_def)

lemma trace_print [simp]: "trace (print_line l w) = trace w"
  by (simp add: print_line_def)

lemma trace_record [simp]: "trace (record_event ev w) = trace w @ [ev]"
  by (simp add: record_event_def)

lemma trace_logger [simp]:
  "trace (logger_info lg m w) = trace w"
  "trace (logger_warn lg m w) = trace w"
  "trace (logger_error lg m w) = trace w"
  "trace (logger_debug lg m w) = trace w"
  "trace (logger_success lg m w) = trace w"
  by (simp_all add: logger_info_def logger_warn_def logger_error_def logger_debug_def logger_success_def)

lemma fetch_count_logger [simp]:
  "fetch_count (logger_info lg m w) = fetch_count w"
  "fetch_count (logger_warn lg m w) = fetch_count w"
  "fetch_count (logger_error lg m w) = fetch_count w"
  "fetch_count (logger_debug lg m w) = fetch_count w"
  "fetch_count (logger_success lg m w) = fetch_count w"
  by (simp_all add: fetch_count_def)

text \<open>What one attempt does, by kind of reply.\<close>

lemma attempt_once_transient:
  assumes "entry_stringifiable e" "transient (net (fetch_count w) e)" "attempt < MAX_RETRIES"
  shows "fst (attempt_once c net e attempt w) = NextAttempt"
    and "trace (snd (attempt_once c net e attempt w)) = trace w @ [Fetch e]"
  using assms
  by (auto simp: attempt_once_def on_response_def on_error_def request_def fetch_def reply_result_def transient_def response_ok_def Let_def
      split: net_reply.splits)

lemma attempt_once_transient_last:
  assumes "entry_stringifiable e" "transient (net (fetch_count w) e)" 
  shows "fst (attempt_once c net e MAX_RETRIES w) \<noteq> Return True"
    and "trace (snd (attempt_once c net e MAX_RETRIES w)) = trace w @ [Fetch e]"
  using assms
  by (auto simp: attempt_once_def on_response_def on_error_def request_def fetch_def reply_result_def transient_def response_ok_def Let_def
      split: net_reply.splits)

lemma attempt_once_ok:
  assumes "entry_stringifiable e" "net (fetch_count w) e = Status st" "response_ok st"
  shows "fst (attempt_once c net e attempt w) = Return True"
    and "trace (snd (attempt_once c net e attempt w)) = trace w @ [Fetch e]"
  using assms
  by (auto simp: attempt_once_def on_response_def on_error_def request_def fetch_def reply_result_def)

lemma attempt_once_4xx:
  assumes "entry_stringifiable e" "net (fetch_count w) e = Status st" "400 \<le> st" "st < 500"
  shows "fst (attempt_once c net e attempt w) = Return False"
    and "trace (snd (attempt_once c net e attempt w)) = trace w @ [Fetch e]"
  using assms
  by (auto simp: attempt_once_def on_response_def on_error_def request_def fetch_def reply_result_def response_ok_def)

lemma fetch_count_attempt:
  assumes "entry_stringifiable e"
  shows "fetch_count (snd (attempt_once c net e attempt w)) = Suc (fetch_count w)"
  using assms
  by (auto simp: attempt_once_def on_response_def on_error_def request_def fetch_def reply_result_def Let_def split: net_reply.splits)

lemma trace_attempt:
  assumes "entry_stringifiable e"
  shows "trace (snd (attempt_once c net e attempt w)) = trace w @ [Fetch e]"
  using assms
  by (auto simp: attempt_once_def on_response_def on_error_def request_def fetch_def reply_result_def Let_def split: net_reply.splits)

lemma trace_backoff:
  "attempt < MAX_RETRIES \<Longrightarrow>
     trace (backoff attempt w) = trace w @ [Delay (RETRY_DELAY_MS * (attempt + 1))]"
  by (simp add: backoff_def delay_def)

lemma fetch_count_backoff [simp]: "fetch_count (backoff attempt w) = fetch_count w"
  by (simp add: backoff_def delay_def)

lemma loop_retry:
  assumes "entry_stringifiable e" "transient (net (fetch_count w) e)" "attempt < MAX_RETRIES"
  shows "sendLog_loop c net e attempt w =
           sendLog_loop c net e (attempt + 1) (backoff attempt (snd (attempt_once c net e attempt w)))"
proof -
  have "fst (attempt_once c net e attempt w) = NextAttempt"
    using assms by (rule attempt_once_transient(1))
  then show ?thesis
    using assms(3) by (subst sendLog_loop.simps) (simp add: split_beta)
qed

lemma loop_return:
  assumes "fst (attempt_once c net e attempt w) = Return b" "attempt \<le> MAX_RETRIES"
  shows "sendLog_loop c net e attempt w = (b, snd (attempt_once c net e attempt w))"
  using assms by (subst sendLog_loop.simps) (simp add: split_beta)

lemma loop_exhausted:
  assumes "entry_stringifiable e" "transient (net (fetch_count w) e)"
  shows "fst (sendLog_loop c net e MAX_RETRIES w) = False"
    and "trace (snd (sendLog_loop c net e MAX_RETRIES w)) = trace w @ [Fetch e]"
proof -
  let ?r = "attempt_once c net e MAX_RETRIES w"
  have after: "sendLog_loop c net e (Suc MAX_RETRIES) w' = (False, w')" for w'
    by (subst sendLog_loop.simps) simp
  have tr: "trace (snd ?r) = trace w @ [Fetch e]"
    using assms(1) by (rule trace_attempt)
  have nb: "backoff MAX_RETRIES w' = w'" for w'
    by (simp add: backoff_def)
  have ne: "fst ?r \<noteq> Return True"
    using assms by (rule attempt_once_transient_last(1))
  show "fst (sendLog_loop c net e MAX_RETRIES w) = False"
    using ne by (subst sendLog_loop.simps) (auto simp: split_beta after nb split: outcome.splits)
  show "trace (snd (sendLog_loop c net e MAX_RETRIES w)) = trace w @ [Fetch e]"
    using tr by (subst sendLog_loop.simps) (simp add: split_beta after nb split: outcome.splits)
qed

lemma example_entry_stringifiable: "entry_stringifiable (example_entry path)"
  by (simp add: entry_stringifiable_def opt_stringifiable_def example_entry_def)

lemma bigint_entry_not_stringifiable: "\<not> entry_stringifiable bigint_entry"
  by (simp add: bigint_entry_def entry_stringifiable_def opt_stringifiable_def example_entry_def)

text \<open>
  C2. Retry schedule of \<open>sendLog\<close>, for an entry that can be serialised, so that its
  attempts reach the network: when the first three attempts get a transient reply
  and the fourth gets a 2xx, the call returns true after exactly four requests, with
  waits of 1000, 2000 and 3000 ms between them (1, 2 and 3 times \<open>RETRY_DELAY_MS\<close>);
  when the fourth attempt fails transiently as well, it returns false after those same
  four requests and three waits, and makes no fifth request.
\<close>

theorem retry_schedule:
  assumes "entry_stringifiable e"
    and "\<forall>i<3. transient (net (fetch_count w + i) e)"
  shows "MAX_RETRIES = 3 \<and> RETRY_DELAY_MS = 1000 \<and>
         (\<forall>st. net (fetch_count w + 3) e = Status st \<and> response_ok st \<longrightarrow>
            fst (sendLog c net e w) = Inr True \<and>
            trace (snd (sendLog c net e w)) =
              trace w @ [SendLogCalled e, Fetch e, Delay 1000, Fetch e, Delay 2000, Fetch e,
                         Delay 3000, Fetch e, SendLogReturned e True]) \<and>
         (transient (net (fetch_count w + 3) e) \<longrightarrow>
            fst (sendLog c net e w) = Inr False \<and>
            trace (snd (sendLog c net e w)) =
              trace w @ [SendLogCalled e, Fetch e, Delay 1000, Fetch e, Delay 2000, Fetch e,
                         Delay 3000, Fetch e, SendLogReturned e False])"
proof -
  define w0 where
    "w0 = (if client_debug c
           then print_line (Dump ''[LogSentinel DEBUG] Sending log:'' [e])
                  (record_event (SendLogCalled e) w)
           else record_event (SendLogCalled e) w)"
  define w1 where "w1 = backoff 0 (snd (attempt_once c net e 0 w0))"
  define w2 where "w2 = backoff (Suc 0) (snd (attempt_once c net e (Suc 0) w1))"
  define w3 where "w3 = backoff (Suc (Suc 0)) (snd (attempt_once c net e (Suc (Suc 0)) w2))"
  have m: "MAX_RETRIES = Suc (Suc (Suc 0))"
    by (simp add: MAX_RETRIES_def numeral_3_eq_3)
  have send: "sendLog c net e w =
                (Inr (fst (sendLog_loop c net e 0 w0)),
                 record_event (SendLogReturned e (fst (sendLog_loop c net e 0 w0)))
                   (snd (sendLog_loop c net e 0 w0)))"
    using assms(1) by (simp add: sendLog_def w0_def Let_def split_beta)
  have c0: "fetch_count w0 = fetch_count w" and t0: "trace w0 = trace w @ [SendLogCalled e]"
    by (simp_all add: w0_def)
  have c1: "fetch_count w1 = fetch_count w + 1"
    and t1: "trace w1 = trace w @ [SendLogCalled e, Fetch e, Delay 1000]"
    using assms(1)
    by (simp_all add: w1_def fetch_count_attempt trace_attempt trace_backoff c0 t0
          MAX_RETRIES_def RETRY_DELAY_MS_def)
  have c2: "fetch_count w2 = fetch_count w + 2"
    and t2: "trace w2 = trace w @ [SendLogCalled e, Fetch e, Delay 1000, Fetch e, Delay 2000]"
    using assms(1)
    by (simp_all add: w2_def fetch_count_attempt trace_attempt trace_backoff c1 t1
          MAX_RETRIES_def RETRY_DELAY_MS_def)
  have c3: "fetch_count w3 = fetch_count w + 3"
    and t3: "trace w3 = trace w @ [SendLogCalled e, Fetch e, Delay 1000, Fetch e, Delay 2000,
                                   Fetch e, Delay 3000]"
    using assms(1)
    by (simp_all add: w3_def fetch_count_attempt trace_attempt trace_backoff c2 t2
          MAX_RETRIES_def RETRY_DELAY_MS_def)
  have early: "transient (net (fetch_count w + i) e)" if "i < 3" for i
    using assms(2) that by blast
  have r0: "transient (net (fetch_count w0) e)"
    using early [of 0] by (simp add: c0)
  have r1: "transient (net (fetch_count w1) e)"
    using early [of 1] by (simp add: c1)
  have r2: "transient (net (fetch_count w2) e)"
    using early [of 2] by (simp add: c2)
  have s0: "sendLog_loop c net e 0 w0 = sendLog_loop c net e (Suc 0) w1"
    using loop_retry [where net = net and w = w0 and attempt = 0 and c = c, OF assms(1) r0]
    by (simp add: w1_def m)
  have s1: "sendLog_loop c net e (Suc 0) w1 = sendLog_loop c net e (Suc (Suc 0)) w2"
    using loop_retry [where net = net and w = w1 and attempt = "Suc 0" and c = c, OF assms(1) r1]
    by (simp add: w2_def m)
  have s2: "sendLog_loop c net e (Suc (Suc 0)) w2 = sendLog_loop c net e MAX_RETRIES w3"
    using loop_retry [where net = net and w = w2 and attempt = "Suc (Suc 0)" and c = c,
        OF assms(1) r2]
    by (simp add: w3_def m)
  have loop: "sendLog_loop c net e 0 w0 = sendLog_loop c net e MAX_RETRIES w3"
    by (simp add: s0 s1 s2)
  have good: "fst (sendLog c net e w) = Inr True \<and>
              trace (snd (sendLog c net e w)) =
                trace w @ [SendLogCalled e, Fetch e, Delay 1000, Fetch e, Delay 2000, Fetch e,
                           Delay 3000, Fetch e, SendLogReturned e True]"
    if "net (fetch_count w + 3) e = Status st" "response_ok st" for st
  proof -
    have rep: "net (fetch_count w3) e = Status st"
      using that(1) by (simp add: c3)
    have "fst (attempt_once c net e MAX_RETRIES w3) = Return True"
      using assms(1) rep that(2) by (rule attempt_once_ok(1))
    then have "sendLog_loop c net e MAX_RETRIES w3 =
                 (True, snd (attempt_once c net e MAX_RETRIES w3))"
      by (rule loop_return) simp
    then show ?thesis
      using assms(1) by (simp add: send loop trace_attempt t3)
  qed
  have bad: "fst (sendLog c net e w) = Inr False \<and>
             trace (snd (sendLog c net e w)) =
               trace w @ [SendLogCalled e, Fetch e, Delay 1000, Fetch e, Delay 2000, Fetch e,
                          Delay 3000, Fetch e, SendLogReturned e False]"
    if "transient (net (fetch_count w + 3) e)"
  proof -
    have rep: "transient (net (fetch_count w3) e)"
      using that by (simp add: c3)
    show ?thesis
      using loop_exhausted [where net = net and w = w3 and c = c, OF assms(1) rep]
      by (simp add: send loop t3)
  qed
  show ?thesis
    using good bad by (simp add: MAX_RETRIES_def RETRY_DELAY_MS_def)
qed

theorem retry_schedule_witness:
  "entry_stringifiable (example_entry ''/a'') \<and>
   transient (recovering_net (fetch_count new_world + 0) (example_entry ''/a'')) \<and>
   transient (recovering_net (fetch_count new_world + 1) (example_entry ''/a'')) \<and>
   transient (recovering_net (fetch_count new_world + 2) (example_entry ''/a'')) \<and>
   recovering_net (fetch_count new_world + 3) (example_entry ''/a'') = Status 200 \<and>
   response_ok 200 \<and>
   fst (sendLog (example_client False) recovering_net (example_entry ''/a'') new_world) = Inr True \<and>
   trace (snd (sendLog (example_client False) recovering_net (example_entry ''/a'') new_world)) =
     [SendLogCalled (example_entry ''/a''), Fetch (example_entry ''/a''), Delay 1000,
      Fetch (example_entry ''/a''), Delay 2000, Fetch (example_entry ''/a''), Delay 3000,
      Fetch (example_entry ''/a''), SendLogReturned (example_entry ''/a'') True] \<and>
   transient (failing_net (fetch_count new_world + 0) (example_entry ''/a'')) \<and>
   transient (failing_net (fetch_count new_world + 1) (example_entry ''/a'')) \<and>
   transient (failing_net (fetch_count new_world + 2) (example_entry ''/a'')) \<and>
   transient (failing_net (fetch_count new_world + 3) (example_entry ''/a'')) \<and>
   fst (sendLog (example_client False) failing_net (example_entry ''/a'') new_world) = Inr False \<and>
   trace (snd (sendLog (example_client False) failing_net (example_entry ''/a'') new_world)) =
     [SendLogCalled (example_entry ''/a''), Fetch (example_entry ''/a''), Delay 1000,
      Fetch (example_entry ''/a''), Delay 2000, Fetch (example_entry ''/a''), Delay 3000,
      Fetch (example_entry ''/a''), SendLogReturned (example_entry ''/a'') False]"
proof -
  have s: "entry_stringifiable (example_entry ''/a'')"
    by (rule example_entry_stringifiable)
  have r: "\<forall>i<3. transient (recovering_net (fetch_count new_world + i) (example_entry ''/a''))"
    by (simp add: recovering_net_def transient_def fetch_count_def new_world_def)
  have f: "\<forall>i<3. transient (failing_net (fetch_count new_world + i) (example_entry ''/a''))"
    by (simp add: failing_net_def transient_def)
  have r3: "recovering_net (fetch_count new_world + 3) (example_entry ''/a'') = Status 200 \<and> response_ok 200"
    by (simp add: recovering_net_def fetch_count_def new_world_def response_ok_def)
  have f3: "transient (failing_net (fetch_count new_world + 3) (example_entry ''/a''))"
    by (simp add: failing_net_def transient_def)
  have t: "trace new_world = []"
    by (simp add: new_world_def)
  show ?thesis
    using retry_schedule [where e = "example_entry ''/a''" and net = recovering_net
        and w = new_world and c = "example_client False", OF s r]
      retry_schedule [where e = "example_entry ''/a''" and net = failing_net
        and w = new_world and c = "example_client False", OF s f]
      s r3 f3 r [rule_format, of 0] r [rule_format, of 1] r [rule_format, of 2]
      f [rule_format, of 0] f [rule_format, of 1] f [rule_format, of 2]
    by (simp add: t)
qed

text \<open>
  C8. Permanent rejection: when the first attempt of an entry reaches the network and
  gets a 4xx status, \<open>sendLog\<close> returns false after exactly one request, with no retry
  and no wait.
\<close>

theorem client_error_not_retried:
  assumes "entry_stringifiable e"
    and "net (fetch_count w) e = Status st"
    and "400 \<le> st" and "st < 500"
  shows "fst (sendLog c net e w) = Inr False \<and>
         trace (snd (sendLog c net e w)) =
           trace w @ [SendLogCalled e, Fetch e, SendLogReturned e False]"
proof -
  define w0 where
    "w0 = (if client_debug c
           then print_line (Dump ''[LogSentinel DEBUG] Sending log:'' [e])
                  (record_event (SendLogCalled e) w)
           else record_event (SendLogCalled e) w)"
  have send: "sendLog c net e w =
                (Inr (fst (sendLog_loop c net e 0 w0)),
                 record_event (SendLogReturned e (fst (sendLog_loop c net e 0 w0)))
                   (snd (sendLog_loop c net e 0 w0)))"
    using assms(1) by (simp add: sendLog_def w0_def Let_def split_beta)
  have c0: "fetch_count w0 = fetch_count w" and t0: "trace w0 = trace w @ [SendLogCalled e]"
    by (simp_all add: w0_def)
  have rep: "net (fetch_count w0) e = Status st"
    using assms(2) by (simp add: c0)
  have "fst (attempt_once c net e 0 w0) = Return False"
    using assms(1) rep assms(3,4) by (rule attempt_once_4xx(1))
  then have "sendLog_loop c net e 0 w0 = (False, snd (attempt_once c net e 0 w0))"
    by (rule loop_return) simp
  then show ?thesis
    using assms(1) by (simp add: send trace_attempt t0)
qed

theorem client_error_not_retried_witness:
  "entry_stringifiable (example_entry ''/a'') \<and>
   rejecting_net (fetch_count new_world) (example_entry ''/a'') = Status 404 \<and>
   (400::nat) \<le> 404 \<and> (404::nat) < 500 \<and>
   fst (sendLog (example_client True) rejecting_net (example_entry ''/a'') new_world) = Inr False \<and>
   trace (snd (sendLog (example_client True) rejecting_net (example_entry ''/a'') new_world)) =
     [SendLogCalled (example_entry ''/a''), Fetch (example_entry ''/a''),
      SendLogReturned (example_entry ''/a'') False]"
proof -
  have s: "entry_stringifiable (example_entry ''/a'')"
    by (rule example_entry_stringifiable)
  have n: "rejecting_net (fetch_count new_world) (example_entry ''/a'') = Status 404"
    by (simp add: rejecting_net_def)
  have t: "trace new_world = []"
    by (simp add: new_world_def)
  show ?thesis
    using client_error_not_retried [where e = "example_entry ''/a''" and net = rejecting_net
        and w = new_world and c = "example_client True" and st = 404, OF s n] s n
    by (simp add: t)
qed

subsection \<open>The shape of the trace\<close>

lemma only_requests_and_waits_Nil: "only_requests_and_waits []"
  by (simp add: only_requests_and_waits_def)

lemma only_requests_and_waits_append:
  "only_requests_and_waits xs \<Longrightarrow> only_requests_and_waits ys \<Longrightarrow>
     only_requests_and_waits (xs @ ys)"
  by (simp add: only_requests_and_waits_def)

lemma attempt_once_extends:
  "\<exists>mid. trace (snd (attempt_once c net e attempt w)) = trace w @ mid \<and>
         only_requests_and_waits mid"
proof (cases "entry_stringifiable e")
  case True
  then have "trace (snd (attempt_once c net e attempt w)) = trace w @ [Fetch e]"
    by (rule trace_attempt)
  then show ?thesis
    by (simp add: only_requests_and_waits_def)
next
  case False
  then have "trace (snd (attempt_once c net e attempt w)) = trace w @ []"
    by (simp add: attempt_once_def on_error_def request_def Let_def)
  then show ?thesis
    using only_requests_and_waits_Nil by blast
qed

lemma backoff_extends:
  "\<exists>mid. trace (backoff attempt w) = trace w @ mid \<and> only_requests_and_waits mid"
proof (cases "attempt < MAX_RETRIES")
  case True
  then show ?thesis
    by (simp add: trace_backoff only_requests_and_waits_def)
next
  case False
  then have "trace (backoff attempt w) = trace w @ []"
    by (simp add: backoff_def)
  then show ?thesis
    using only_requests_and_waits_Nil by blast
qed

lemma sendLog_loop_extends:
  "\<exists>mid. trace (snd (sendLog_loop c net e attempt w)) = trace w @ mid \<and>
         only_requests_and_waits mid"
proof (induction c net e attempt w rule: sendLog_loop.induct)
  case (1 c net e attempt w)
  show ?case
  proof (cases "attempt \<le> MAX_RETRIES")
    case False
    then have "sendLog_loop c net e attempt w = (False, w)"
      by (subst sendLog_loop.simps) simp
    then have "trace (snd (sendLog_loop c net e attempt w)) = trace w @ []"
      by simp
    then show ?thesis
      using only_requests_and_waits_Nil by blast
  next
    case True
    obtain o1 w1 where step: "attempt_once c net e attempt w = (o1, w1)"
      by (cases "attempt_once c net e attempt w")
    obtain m1 where m1: "trace w1 = trace w @ m1" "only_requests_and_waits m1"
      using attempt_once_extends [of c net e attempt w] step by auto
    show ?thesis
    proof (cases o1)
      case (Return b)
      then have "sendLog_loop c net e attempt w = (b, w1)"
        using True step by (subst sendLog_loop.simps) simp
      then show ?thesis
        using m1 by auto
    next
      case NextAttempt
      have unfold: "sendLog_loop c net e attempt w =
                      sendLog_loop c net e (attempt + 1) (backoff attempt w1)"
        using True step NextAttempt by (subst sendLog_loop.simps) simp
      obtain m2 where m2: "trace (backoff attempt w1) = trace w1 @ m2"
          "only_requests_and_waits m2"
        using backoff_extends by blast
      obtain m3 where m3:
          "trace (snd (sendLog_loop c net e (attempt + 1) (backoff attempt w1))) =
             trace (backoff attempt w1) @ m3"
          "only_requests_and_waits m3"
        using "1.IH" [OF True step [symmetric] NextAttempt] by blast
      have "trace (snd (sendLog_loop c net e attempt w)) = trace w @ (m1 @ m2 @ m3)"
        using m3(1) by (simp add: unfold m2(1) m1(1))
      moreover have "only_requests_and_waits (m1 @ m2 @ m3)"
        using m1(2) m2(2) m3(2) by (simp add: only_requests_and_waits_append)
      ultimately show ?thesis
        by blast
    qed
  qed
qed

text \<open>Where \<open>sendLog\<close> returns and where it throws.\<close>

lemma sendLog_returns:
  assumes "\<not> client_debug c \<or> entry_stringifiable e"
  shows "\<exists>b mid. fst (sendLog c net e w) = Inr b \<and>
           trace (snd (sendLog c net e w)) =
             trace w @ [SendLogCalled e] @ mid @ [SendLogReturned e b] \<and>
           only_requests_and_waits mid"
proof -
  define w0 where
    "w0 = (if client_debug c
           then print_line (Dump ''[LogSentinel DEBUG] Sending log:'' [e])
                  (record_event (SendLogCalled e) w)
           else record_event (SendLogCalled e) w)"
  have send: "sendLog c net e w =
                (Inr (fst (sendLog_loop c net e 0 w0)),
                 record_event (SendLogReturned e (fst (sendLog_loop c net e 0 w0)))
                   (snd (sendLog_loop c net e 0 w0)))"
    using assms by (auto simp: sendLog_def w0_def Let_def split_beta)
  have t0: "trace w0 = trace w @ [SendLogCalled e]"
    by (simp add: w0_def)
  obtain mid where mid: "trace (snd (sendLog_loop c net e 0 w0)) = trace w0 @ mid"
      "only_requests_and_waits mid"
    using sendLog_loop_extends by blast
  show ?thesis
    using mid by (simp add: send t0)
qed

lemma sendLog_throws:
  assumes "client_debug c" "\<not> entry_stringifiable e"
  shows "sendLog c net e w = (Inl bigint_TypeError, record_event (SendLogCalled e) w)"
  using assms by (simp add: sendLog_def)

lemma call_events_requests [simp]:
  "only_requests_and_waits mid \<Longrightarrow> call_events mid = []"
  unfolding only_requests_and_waits_def call_events_def
  by (induction mid) (auto elim: is_Fetch.elims is_Delay.elims)

lemma call_events_Nil [simp]: "call_events [] = []"
  by (simp add: call_events_def)

lemma call_events_Cons [simp]:
  "call_events (ev # evs) =
     (if is_SendLogCalled ev \<or> is_SendLogReturned ev then ev # call_events evs
      else call_events evs)"
  by (simp add: call_events_def)

lemma call_events_append [simp]: "call_events (xs @ ys) = call_events xs @ call_events ys"
  by (simp add: call_events_def)

text \<open>
  The delivery loop on a batch that does not make \<open>sendLog\<close> throw: the calls to
  \<open>sendLog\<close> are made for the entries in order, each call returns before the next is
  made, and the count grows by the number of calls that returned true.
\<close>

lemma sendBatch_loop_in_order:
  assumes "\<not> client_debug c \<or> list_all entry_stringifiable es"
  shows "\<exists>bs new. length bs = length es \<and>
           fst (sendBatch_loop c net es n w) = Inr (n + length (filter id bs)) \<and>
           trace (snd (sendBatch_loop c net es n w)) = trace w @ new \<and>
           call_events new = interleave es bs"
  using assms
proof (induction es arbitrary: n w)
  case Nil
  have "length [] = length ([] :: LogEntry list) \<and>
        fst (sendBatch_loop c net [] n w) = Inr (n + length (filter id [])) \<and>
        trace (snd (sendBatch_loop c net [] n w)) = trace w @ [] \<and>
        call_events [] = interleave [] []"
    by simp
  then show ?case
    by blast
next
  case (Cons e es)
  have one: "\<not> client_debug c \<or> entry_stringifiable e"
    and rest: "\<not> client_debug c \<or> list_all entry_stringifiable es"
    using Cons.prems by auto
  obtain b mid where b: "fst (sendLog c net e w) = Inr b"
      "trace (snd (sendLog c net e w)) = trace w @ [SendLogCalled e] @ mid @ [SendLogReturned e b]"
      "only_requests_and_waits mid"
    using sendLog_returns [OF one] by blast
  define w1 where "w1 = snd (sendLog c net e w)"
  define n1 where "n1 = (if b then n + 1 else n)"
  have unfold: "sendBatch_loop c net (e # es) n w = sendBatch_loop c net es n1 w1"
    using b(1) by (simp add: w1_def n1_def split_beta split: sum.splits prod.splits)
  obtain bs new where ih: "length bs = length es"
      "fst (sendBatch_loop c net es n1 w1) = Inr (n1 + length (filter id bs))"
      "trace (snd (sendBatch_loop c net es n1 w1)) = trace w1 @ new"
      "call_events new = interleave es bs"
    using Cons.IH [OF rest] by blast
  let ?new = "[SendLogCalled e] @ mid @ [SendLogReturned e b] @ new"
  have "length (b # bs) = length (e # es)"
    using ih(1) by simp
  moreover have "fst (sendBatch_loop c net (e # es) n w) = Inr (n + length (filter id (b # bs)))"
    unfolding unfold using ih(2) by (simp add: n1_def)
  moreover have "trace (snd (sendBatch_loop c net (e # es) n w)) = trace w @ ?new"
    unfolding unfold using ih(3) b(2) by (simp add: w1_def)
  moreover have "call_events ?new = interleave (e # es) (b # bs)"
    using ih(4) b(3) by simp
  ultimately show ?case
    by blast
qed

text \<open>
  The same for \<open>sendBatch\<close>: with debug mode off, or on a batch of entries that can
  all be serialised, it returns the number of entries for which \<open>sendLog\<close> returned
  true, after calling \<open>sendLog\<close> for each entry in order, one call at a time.
\<close>

lemma sendBatch_in_order:
  assumes "\<not> client_debug c \<or> list_all entry_stringifiable es"
  shows "\<exists>bs new. length bs = length es \<and>
           fst (sendBatch c net es w) = Inr (length (filter id bs)) \<and>
           trace (snd (sendBatch c net es w)) = trace w @ SendBatchCalled es # new \<and>
           call_events new = interleave es bs"
proof -
  define w0 where "w0 = record_event (SendBatchCalled es) w"
  define w1 where
    "w1 = (if client_debug c \<and> length es > 0
           then print_line (Dump ''[LogSentinel DEBUG] Sending batch:'' es) w0 else w0)"
  have body: "sendBatch c net es w = sendBatch_loop c net es 0 w1"
    using assms by (auto simp: sendBatch_def sendBatch_body_def w0_def w1_def)
  have t1: "trace w1 = trace w @ [SendBatchCalled es]"
    by (simp add: w1_def w0_def)
  obtain bs new where loop: "length bs = length es"
      "fst (sendBatch_loop c net es 0 w1) = Inr (0 + length (filter id bs))"
      "trace (snd (sendBatch_loop c net es 0 w1)) = trace w1 @ new"
      "call_events new = interleave es bs"
    using sendBatch_loop_in_order [OF assms] by blast
  show ?thesis
    using loop by (auto simp: body t1)
qed

text \<open>With debug mode off neither \<open>sendLog\<close> nor \<open>sendBatch\<close> throws.\<close>

lemma transport_total_without_debug:
  assumes "\<not> client_debug c"
  shows "\<exists>b. fst (sendLog c net e w) = Inr b" and "\<exists>n. fst (sendBatch c net es w) = Inr n"
proof -
  show "\<exists>b. fst (sendLog c net e w) = Inr b"
    using sendLog_returns [of c e net w] assms by blast
  show "\<exists>n. fst (sendBatch c net es w) = Inr n"
    using sendBatch_in_order [of c es net w] assms by blast
qed

text \<open>
  C5, at an input where it fails: in debug mode, for an entry whose response body is a
  BigInt, \<open>sendLog\<close> and \<open>sendBatch\<close> throw the \<open>TypeError\<close> of \<open>JSON.stringify\<close> to
  their caller, whatever the network does.
\<close>

theorem transport_throws_in_debug_mode:
  "sendLog (example_client True) net bigint_entry w =
     (Inl bigint_TypeError, record_event (SendLogCalled bigint_entry) w) \<and>
   sendBatch (example_client True) net [bigint_entry] w =
     (Inl bigint_TypeError, record_event (SendBatchCalled [bigint_entry]) w)"
proof -
  have d: "client_debug (example_client True)"
    by (simp add: example_client_def)
  show ?thesis
    using d bigint_entry_not_stringifiable
    by (simp add: sendLog_throws sendBatch_def sendBatch_body_def)
qed

text \<open>
  C9, at an input where it fails: in debug mode, a batch of a serialisable entry and an
  entry holding a BigInt. \<open>sendBatch\<close> throws while printing the batch: no record is
  handed to \<open>sendLog\<close> and no count is returned.
\<close>

theorem debug_batch_delivers_nothing:
  "fst (sendBatch (example_client True) net [example_entry ''/a'', bigint_entry] w) =
     Inl bigint_TypeError \<and>
   trace (snd (sendBatch (example_client True) net [example_entry ''/a'', bigint_entry] w)) =
     trace w @ [SendBatchCalled [example_entry ''/a'', bigint_entry]] \<and>
   filter is_SendLogCalled
     (trace (snd (sendBatch (example_client True) net [example_entry ''/a'', bigint_entry] w))) =
     filter is_SendLogCalled (trace w)"
proof -
  have d: "client_debug (example_client True)"
    by (simp add: example_client_def)
  show ?thesis
    using d bigint_entry_not_stringifiable
    by (simp add: sendBatch_def sendBatch_body_def)
qed

subsection \<open>Calls to \<open>sendBatch\<close> in the trace\<close>

lemma sendBatch_calls_record [simp]:
  "sendBatch_calls (record_event ev w) =
     sendBatch_calls w @ (case ev of SendBatchCalled es \<Rightarrow> [es] | _ \<Rightarrow> [])"
  by (simp add: sendBatch_calls_def record_event_def)

lemma sendBatch_calls_logger [simp]:
  "sendBatch_calls (logger_debug lg m w) = sendBatch_calls w"
  "sendBatch_calls (logger_warn lg m w) = sendBatch_calls w"
  "sendBatch_calls (logger_error lg m w) = sendBatch_calls w"
  "sendBatch_calls (logger_success lg m w) = sendBatch_calls w"
  "sendBatch_calls (logger_info lg m w) = sendBatch_calls w"
  "sendBatch_calls (print_line l w) = sendBatch_calls w"
  by (simp_all add: sendBatch_calls_def)

lemma sendBatch_calls_extended:
  assumes "trace w' = trace w @ new" "list_all (\<lambda>ev. \<not> is_SendBatchCalled ev) new"
  shows "sendBatch_calls w' = sendBatch_calls w"
proof -
  have "concat (map (\<lambda>ev. case ev of SendBatchCalled es \<Rightarrow> [es] | _ \<Rightarrow> []) new) = []"
    using assms(2) by (induction new) (auto split: event.splits)
  then show ?thesis
    by (simp add: sendBatch_calls_def assms(1))
qed

lemma sendLog_keeps_batch_calls:
  "sendBatch_calls (snd (sendLog c net e w)) = sendBatch_calls w"
proof (cases "\<not> client_debug c \<or> entry_stringifiable e")
  case True
  obtain b mid where tr:
      "trace (snd (sendLog c net e w)) = trace w @ [SendLogCalled e] @ mid @ [SendLogReturned e b]"
      and mid: "only_requests_and_waits mid"
    using sendLog_returns [OF True] by blast
  have "list_all (\<lambda>ev. \<not> is_SendBatchCalled ev) mid"
    using mid unfolding only_requests_and_waits_def
    by (induction mid) (auto elim: is_Fetch.elims is_Delay.elims)
  then have "list_all (\<lambda>ev. \<not> is_SendBatchCalled ev)
               ([SendLogCalled e] @ mid @ [SendLogReturned e b])"
    by simp
  then show ?thesis
    using tr by (rule sendBatch_calls_extended [rotated])
next
  case False
  then show ?thesis
    by (simp add: sendLog_throws)
qed

lemma sendBatch_loop_keeps_batch_calls:
  "sendBatch_calls (snd (sendBatch_loop c net es n w)) = sendBatch_calls w"
proof (induction es arbitrary: n w)
  case Nil
  then show ?case by simp
next
  case (Cons e es)
  show ?case
  proof (cases "fst (sendLog c net e w)")
    case (Inl err)
    then have "snd (sendBatch_loop c net (e # es) n w) = snd (sendLog c net e w)"
      by (simp add: split_beta split: sum.splits prod.splits)
    then show ?thesis
      by (simp add: sendLog_keeps_batch_calls)
  next
    case (Inr success)
    then have "snd (sendBatch_loop c net (e # es) n w) =
                 snd (sendBatch_loop c net es (if success then n + 1 else n)
                        (snd (sendLog c net e w)))"
      by (simp add: split_beta split: sum.splits prod.splits)
    then show ?thesis
      by (simp add: Cons.IH sendLog_keeps_batch_calls)
  qed
qed

lemma sendBatch_body_keeps_batch_calls:
  "sendBatch_calls (snd (sendBatch_body c net es w)) = sendBatch_calls w"
  by (simp add: sendBatch_body_def sendBatch_loop_keeps_batch_calls)


lemma sendBatch_calls_backoff [simp]: "sendBatch_calls (backoff attempt w) = sendBatch_calls w"
  by (simp add: backoff_def delay_def)

lemma sendBatch_calls_on_response [simp]:
  "sendBatch_calls (snd (on_response c attempt status w)) = sendBatch_calls w"
  by (simp add: on_response_def)

lemma sendBatch_calls_on_error [simp]:
  "sendBatch_calls (snd (on_error c attempt err w)) = sendBatch_calls w"
  by (simp add: on_error_def Let_def)

lemma sendLog_loop_keeps_batch_calls:
  "sendBatch_calls (snd (sendLog_loop c net e attempt w)) = sendBatch_calls w"
proof -
  obtain mid where tr: "trace (snd (sendLog_loop c net e attempt w)) = trace w @ mid"
      and mid: "only_requests_and_waits mid"
    using sendLog_loop_extends by blast
  have "list_all (\<lambda>ev. \<not> is_SendBatchCalled ev) mid"
    using mid unfolding only_requests_and_waits_def
    by (induction mid) (auto elim: is_Fetch.elims is_Delay.elims)
  with tr show ?thesis
    by (rule sendBatch_calls_extended)
qed

subsection \<open>The transport across its first \<open>await\<close>\<close>

text \<open>
  Stopping at the first \<open>await\<close> and going on from there is the same as running the call
  in one piece.
\<close>

lemma sendLog_begin_finish:
  "sendLog_finish c net e (fst (sendLog_begin c e w)) (snd (sendLog_begin c e w)) =
     sendLog c net e w"
proof (cases "entry_stringifiable e")
  case True
  define w1 where
    "w1 = (if client_debug c
           then print_line (Dump ''[LogSentinel DEBUG] Sending log:'' [e])
                  (record_event (SendLogCalled e) w)
           else record_event (SendLogCalled e) w)"
  have idx: "fetch_count (record_event (Fetch e) w1) - 1 = fetch_count w1"
    by simp
  have once: "attempt_once c net e 0 w1 =
                (case reply_result (net (fetch_count w1) e) of
                   Inr status \<Rightarrow> on_response c 0 status (record_event (Fetch e) w1)
                 | Inl err \<Rightarrow> on_error c 0 err (record_event (Fetch e) w1))"
    using True by (simp add: attempt_once_def request_def fetch_def split: sum.splits)
  have loop: "sendLog_loop c net e 0 w1 =
                (case attempt_once c net e 0 w1 of
                   (Return b, w2) \<Rightarrow> (b, w2)
                 | (NextAttempt, w2) \<Rightarrow> sendLog_loop c net e 1 (backoff 0 w2))"
    by (subst sendLog_loop.simps) (simp split: prod.splits outcome.splits)
  have "sendLog_finish c net e AwaitsReply (record_event (Fetch e) w1) =
          (case sendLog_loop c net e 0 w1 of
             (b, w2) \<Rightarrow> (Inr b, record_event (SendLogReturned e b) w2))"
    unfolding loop once
    by (simp add: sendLog_finish_def idx split: sum.splits prod.splits outcome.splits)
  then show ?thesis
    using True by (simp add: sendLog_begin_def sendLog_def w1_def Let_def)
next
  case False
  show ?thesis
  proof (cases "client_debug c")
    case True
    then show ?thesis
      using False by (simp add: sendLog_begin_def sendLog_def sendLog_finish_def Let_def)
  next
    case quiet: False
    define w0 where "w0 = record_event (SendLogCalled e) w"
    have once: "attempt_once c net e 0 w0 = on_error c 0 bigint_TypeError w0"
      using False by (simp add: attempt_once_def request_def)
    have loop: "sendLog_loop c net e 0 w0 =
                  (case on_error c 0 bigint_TypeError w0 of
                     (Return b, w2) \<Rightarrow> (b, w2)
                   | (NextAttempt, w2) \<Rightarrow> sendLog_loop c net e 1 (backoff 0 w2))"
      by (subst sendLog_loop.simps) (simp add: once split: prod.splits outcome.splits)
    show ?thesis
      using False quiet
      by (simp add: sendLog_begin_def sendLog_def sendLog_finish_def Let_def w0_def [symmetric]
          loop split: prod.splits outcome.splits)
  qed
qed

lemma sendBatch_begin_finish:
  "sendBatch_finish c net es (fst (sendBatch_begin c es w)) (snd (sendBatch_begin c es w)) =
     sendBatch_body c net es w"
proof (cases es)
  case Nil
  then show ?thesis
    by (simp add: sendBatch_begin_def sendBatch_finish_def sendBatch_body_def)
next
  case (Cons e rest)
  have first: "sendBatch_loop c net (e # rest) 0 w' =
                 (case sendLog_finish c net e (fst (sendLog_begin c e w'))
                         (snd (sendLog_begin c e w')) of
                    (Inl err, w1) \<Rightarrow> (Inl err, w1)
                  | (Inr success, w1) \<Rightarrow>
                      sendBatch_loop c net rest (if success then 0 + 1 else 0) w1)" for w'
    by (simp add: sendLog_begin_finish)
  show ?thesis
    unfolding Cons sendBatch_body_def first
    by (simp add: sendBatch_begin_def sendBatch_finish_def split_beta Let_def)
qed

text \<open>Neither part of the call adds a \<open>sendBatch\<close> call to the trace.\<close>

lemma sendLog_begin_keeps_batch_calls:
  "sendBatch_calls (snd (sendLog_begin c e w)) = sendBatch_calls w"
  by (simp add: sendLog_begin_def Let_def split_beta split: outcome.splits)

lemma sendBatch_begin_keeps_batch_calls:
  "sendBatch_calls (snd (sendBatch_begin c es w)) = sendBatch_calls w"
  by (simp add: sendBatch_begin_def Let_def split_beta sendLog_begin_keeps_batch_calls
      split: list.splits)

lemma sendLog_finish_keeps_batch_calls:
  "sendBatch_calls (snd (sendLog_finish c net e stopped w)) = sendBatch_calls w"
  by (simp add: sendLog_finish_def split_beta sendLog_loop_keeps_batch_calls
      split: sendLog_stop.splits sum.splits outcome.splits)

lemma sendBatch_finish_keeps_batch_calls:
  "sendBatch_calls (snd (sendBatch_finish c net es stopped w)) = sendBatch_calls w"
  by (simp add: sendBatch_finish_def split_beta sendBatch_loop_keeps_batch_calls
      sendLog_finish_keeps_batch_calls split: sendBatch_stop.splits list.splits sum.splits)


section \<open>Properties of the flusher\<close>

lemma flush_busy: "flushInProgress (the_flusher r) \<Longrightarrow> flush r w = (r, w)"
  by (simp add: flush_def)

lemma flush_idle_empty:
  assumes "\<not> flushInProgress (the_flusher r)" "queue (the_queue r) = []"
  shows "flush r w = (r, w)"
  using assms by (simp add: flush_def getAndClear_def)

text \<open>
  A flush on a non-empty queue: the state it leaves, and the world, in which \<open>sendBatch\<close>
  has been called and has run up to its first \<open>await\<close>.
\<close>

lemma flush_idle_nonempty:
  assumes "\<not> flushInProgress (the_flusher r)" "queue (the_queue r) \<noteq> []"
  shows "fst (flush r w) =
           r\<lparr>the_queue := (the_queue r)\<lparr>queue := []\<rparr>,
             the_flusher := (the_flusher r)
               \<lparr>flushInProgress := True,
                awaiting := Some (queue (the_queue r),
                  fst (sendBatch_begin (httpClient (the_flusher r)) (queue (the_queue r))
                         (record_event (SendBatchCalled (queue (the_queue r)))
                            (logger_debug (flusher_logger (the_flusher r))
                               (''Flushing '' @ show_nat (length (queue (the_queue r)))
                                  @ '' log entries'') w))))\<rparr>\<rparr>"
    and "snd (flush r w) =
           snd (sendBatch_begin (httpClient (the_flusher r)) (queue (the_queue r))
                  (record_event (SendBatchCalled (queue (the_queue r)))
                     (logger_debug (flusher_logger (the_flusher r))
                        (''Flushing '' @ show_nat (length (queue (the_queue r)))
                           @ '' log entries'') w)))"
    and "sendBatch_calls (snd (flush r w)) = sendBatch_calls w @ [queue (the_queue r)]"
  using assms
  by (simp_all add: flush_def getAndClear_def split_beta sendBatch_begin_keeps_batch_calls)

text \<open>
  When nothing else touches the transport in between, a flush followed by the settling
  of its batch amounts to one undivided \<open>sendBatch\<close> call followed by the rest of
  \<open>flush\<close>.
\<close>

lemma flush_then_settle:
  assumes "\<not> flushInProgress (the_flusher r)" "queue (the_queue r) \<noteq> []"
  shows "settle net (fst (flush r w)) (snd (flush r w)) =
           flush_resume
             (fst (sendBatch (httpClient (the_flusher r)) net (queue (the_queue r))
                     (logger_debug (flusher_logger (the_flusher r))
                        (''Flushing '' @ show_nat (length (queue (the_queue r)))
                           @ '' log entries'') w)))
             (fst (flush r w))
             (snd (sendBatch (httpClient (the_flusher r)) net (queue (the_queue r))
                     (logger_debug (flusher_logger (the_flusher r))
                        (''Flushing '' @ show_nat (length (queue (the_queue r)))
                           @ '' log entries'') w)))"
  unfolding flush_idle_nonempty(2) [OF assms]
  by (simp add: settle_def flush_idle_nonempty(1) [OF assms] sendBatch_begin_finish
      sendBatch_def split_beta)

lemma flush_resume_releases:
  "awaiting (the_flusher r) \<noteq> None \<Longrightarrow>
     \<not> flushInProgress (the_flusher (fst (flush_resume result r w)))"
  by (auto simp: flush_resume_def)

lemma settle_releases:
  "awaiting (the_flusher r) \<noteq> None \<Longrightarrow>
     \<not> flushInProgress (the_flusher (fst (settle net r w)))"
  by (auto simp: settle_def split_beta flush_resume_releases)

text \<open>
  C1. Flush mutual exclusion. While \<open>flushInProgress\<close> is set, a flush requested through
  \<open>manualFlush\<close> or through the timer's size check changes nothing: the queue is not
  drained and no transport call is made. A flush that takes the guard on an empty queue
  has released it when it returns; one that takes it on a non-empty queue holds it while
  it waits for \<open>sendBatch\<close> and has released it once it resumes, whatever \<open>sendBatch\<close>
  delivered (all, some or none of the entries, or an exception).
\<close>

theorem flush_guard:
  "(flushInProgress (the_flusher r) \<longrightarrow>
      flush r w = (r, w) \<and> manualFlush r w = (r, w) \<and>
      checkAndFlush r w = (r, w) \<and> tick r w = (r, w)) \<and>
   (\<not> flushInProgress (the_flusher r) \<longrightarrow>
      (queue (the_queue r) = [] \<longrightarrow> \<not> flushInProgress (the_flusher (fst (flush r w)))) \<and>
      (queue (the_queue r) \<noteq> [] \<longrightarrow>
         flushInProgress (the_flusher (fst (flush r w))) \<and>
         \<not> flushInProgress (the_flusher (fst (flush_resume result (fst (flush r w)) w'))) \<and>
         \<not> flushInProgress
             (the_flusher (fst (settle net (fst (flush r w)) (snd (flush r w)))))))"
proof (intro conjI impI)
  assume busy: "flushInProgress (the_flusher r)"
  show "flush r w = (r, w)"
    using busy by (rule flush_busy)
  show "manualFlush r w = (r, w)"
    using busy by (simp add: manualFlush_def flush_busy)
  show "checkAndFlush r w = (r, w)"
    using busy by (simp add: checkAndFlush_def)
  show "tick r w = (r, w)"
    using busy by (simp add: tick_def checkAndFlush_def split: option.splits)
next
  assume idle: "\<not> flushInProgress (the_flusher r)" and empty: "queue (the_queue r) = []"
  show "\<not> flushInProgress (the_flusher (fst (flush r w)))"
    using idle by (simp add: flush_idle_empty [OF idle empty])
next
  assume idle: "\<not> flushInProgress (the_flusher r)" and held: "queue (the_queue r) \<noteq> []"
  have susp: "awaiting (the_flusher (fst (flush r w))) \<noteq> None"
    by (simp add: flush_idle_nonempty(1) [OF idle held])
  show "flushInProgress (the_flusher (fst (flush r w)))"
    by (simp add: flush_idle_nonempty(1) [OF idle held])
  show "\<not> flushInProgress (the_flusher (fst (flush_resume result (fst (flush r w)) w')))"
    using susp by (rule flush_resume_releases)
  show "\<not> flushInProgress (the_flusher (fst (settle net (fst (flush r w)) (snd (flush r w)))))"
    using susp by (rule settle_releases)
qed

theorem flush_guard_witness:
  "flushInProgress (the_flusher (example_runtime True [example_entry ''/a''])) \<and>
   flush (example_runtime True [example_entry ''/a'']) new_world =
     (example_runtime True [example_entry ''/a''], new_world) \<and>
   manualFlush (example_runtime True [example_entry ''/a'']) new_world =
     (example_runtime True [example_entry ''/a''], new_world) \<and>
   checkAndFlush (example_runtime True [example_entry ''/a'']) new_world =
     (example_runtime True [example_entry ''/a''], new_world) \<and>
   tick (example_runtime True [example_entry ''/a'']) new_world =
     (example_runtime True [example_entry ''/a''], new_world) \<and>
   \<not> flushInProgress (the_flusher (example_runtime False [])) \<and>
   queue (the_queue (example_runtime False [])) = [] \<and>
   \<not> flushInProgress (the_flusher (fst (flush (example_runtime False []) new_world))) \<and>
   \<not> flushInProgress (the_flusher (example_runtime False [example_entry ''/a''])) \<and>
   queue (the_queue (example_runtime False [example_entry ''/a''])) \<noteq> [] \<and>
   flushInProgress
     (the_flusher (fst (flush (example_runtime False [example_entry ''/a'']) new_world))) \<and>
   \<not> flushInProgress
       (the_flusher
          (fst (flush_resume (Inl bigint_TypeError)
                  (fst (flush (example_runtime False [example_entry ''/a'']) new_world))
                  new_world))) \<and>
   \<not> flushInProgress
       (the_flusher
          (fst (settle failing_net
                  (fst (flush (example_runtime False [example_entry ''/a'']) new_world))
                  (snd (flush (example_runtime False [example_entry ''/a'']) new_world)))))"
proof -
  have busy: "flushInProgress (the_flusher (example_runtime True [example_entry ''/a'']))"
    by (simp add: example_runtime_def)
  have idle0: "\<not> flushInProgress (the_flusher (example_runtime False []))"
    and empty0: "queue (the_queue (example_runtime False [])) = []"
    by (simp_all add: example_runtime_def)
  have idle1: "\<not> flushInProgress (the_flusher (example_runtime False [example_entry ''/a'']))"
    and held1: "queue (the_queue (example_runtime False [example_entry ''/a''])) \<noteq> []"
    by (simp_all add: example_runtime_def)
  show ?thesis
    using flush_guard [of "example_runtime True [example_entry ''/a'']" new_world]
      flush_guard [of "example_runtime False []" new_world]
      flush_guard [of "example_runtime False [example_entry ''/a'']" new_world
        "Inl bigint_TypeError" new_world failing_net]
      busy idle0 empty0 idle1 held1
    by simp
qed

subsection \<open>Enqueueing up to the batch size\<close>

lemma run_Nil [simp]: "run net [] s = s"
  by (simp add: run_def)

lemma run_Cons [simp]: "run net (a # acts) s = run net acts (step net a s)"
  by (simp add: run_def)

lemma run_append [simp]: "run net (xs @ ys) s = run net ys (run net xs s)"
  by (simp add: run_def)

lemma run_enqueues:
  "\<not> isShuttingDown (the_queue r) \<Longrightarrow>
     run net (map Enqueue es) (r, w) =
       (r\<lparr>the_queue := (the_queue r)\<lparr>queue := queue (the_queue r) @ es\<rparr>\<rparr>, w)"
proof (induction es arbitrary: r)
  case Nil
  then show ?case by simp
next
  case (Cons e es)
  let ?r1 = "r\<lparr>the_queue := (the_queue r)\<lparr>queue := queue (the_queue r) @ [e]\<rparr>\<rparr>"
  have open1: "\<not> isShuttingDown (the_queue ?r1)"
    using Cons.prems by simp
  have "run net (map Enqueue (e # es)) (r, w) = run net (map Enqueue es) (?r1, w)"
    using Cons.prems by (simp add: add_def)
  also have "\<dots> = (?r1\<lparr>the_queue := (the_queue ?r1)\<lparr>queue := queue (the_queue ?r1) @ es\<rparr>\<rparr>, w)"
    by (rule Cons.IH [OF open1])
  also have "\<dots> = (r\<lparr>the_queue := (the_queue r)\<lparr>queue := queue (the_queue r) @ e # es\<rparr>\<rparr>, w)"
    by simp
  finally show ?case .
qed

lemma step_Settle: "step net Settle s = settle net (fst s) (snd s)"
  by (cases s) simp

lemma settle_keeps_batch_calls:
  "sendBatch_calls (snd (settle net r w)) = sendBatch_calls w"
  by (simp add: settle_def flush_resume_def split_beta sendBatch_finish_keeps_batch_calls
      split: option.splits sum.splits)

lemma settle_keeps_queue: "the_queue (fst (settle net r w)) = the_queue r"
  by (simp add: settle_def flush_resume_def split_beta split: option.splits)

text \<open>
  C3, as the code has it. The size check runs only in the callback of the interval
  timer. After enqueue calls have filled an empty queue up to the batch size or beyond,
  and before the timer fires, nothing has been flushed: the queue holds the entries and
  no \<open>sendBatch\<close> call has been made. When the timer then fires with no flush in
  progress, the flush drains the queue and makes exactly one \<open>sendBatch\<close> call, with
  all the entries in enqueue order; that is still the only call once the batch has
  settled.
\<close>

theorem threshold_flush_on_tick:
  assumes "\<not> isShuttingDown (the_queue r)" and "queue (the_queue r) = []"
    and "\<not> flushInProgress (the_flusher r)" and "intervalHandle (the_flusher r) \<noteq> None"
    and "es \<noteq> []" and "flusher_batchSize (the_flusher r) \<le> int (length es)"
  shows "run net (map Enqueue es) (r, w) = (r\<lparr>the_queue := (the_queue r)\<lparr>queue := es\<rparr>\<rparr>, w) \<and>
         queue (the_queue (fst (run net (map Enqueue es @ [Tick]) (r, w)))) = [] \<and>
         sendBatch_calls (snd (run net (map Enqueue es @ [Tick]) (r, w))) =
           sendBatch_calls w @ [es] \<and>
         queue (the_queue (fst (run net (map Enqueue es @ [Tick, Settle]) (r, w)))) = [] \<and>
         sendBatch_calls (snd (run net (map Enqueue es @ [Tick, Settle]) (r, w))) =
           sendBatch_calls w @ [es]"
proof -
  let ?r1 = "r\<lparr>the_queue := (the_queue r)\<lparr>queue := es\<rparr>\<rparr>"
  have filled: "run net (map Enqueue es) (r, w) = (?r1, w)"
    using run_enqueues [OF assms(1), of net es w] assms(2) by simp
  have idle: "\<not> flushInProgress (the_flusher ?r1)" and held: "queue (the_queue ?r1) \<noteq> []"
    using assms(3,5) by simp_all
  have "tick ?r1 w = checkAndFlush ?r1 w"
    using assms(4) by (auto simp: tick_def)
  also have "\<dots> = flush ?r1 w"
    using assms(3,6) by (simp add: checkAndFlush_def size_q_def)
  finally have ticked: "run net (map Enqueue es @ [Tick]) (r, w) = flush ?r1 w"
    by (simp add: filled)
  have q: "queue (the_queue (fst (flush ?r1 w))) = []"
    by (simp add: flush_idle_nonempty(1) [OF idle held])
  have calls: "sendBatch_calls (snd (flush ?r1 w)) = sendBatch_calls w @ [es]"
    using flush_idle_nonempty(3) [OF idle held, of w] by simp
  have settled: "run net (map Enqueue es @ [Tick, Settle]) (r, w) =
                   settle net (fst (flush ?r1 w)) (snd (flush ?r1 w))"
    using ticked by (simp add: step_Settle)
  show ?thesis
    by (simp only: filled ticked settled q calls settle_keeps_queue settle_keeps_batch_calls)
qed

theorem threshold_flush_on_tick_witness:
  "\<not> isShuttingDown (the_queue (example_runtime False [])) \<and>
   queue (the_queue (example_runtime False [])) = [] \<and>
   \<not> flushInProgress (the_flusher (example_runtime False [])) \<and>
   intervalHandle (the_flusher (example_runtime False [])) \<noteq> None \<and>
   five_entries \<noteq> [] \<and>
   flusher_batchSize (the_flusher (example_runtime False [])) \<le> int (length five_entries) \<and>
   run recovering_net (map Enqueue five_entries) (example_runtime False [], new_world) =
     (example_runtime False five_entries, new_world) \<and>
   queue (the_queue (fst (run recovering_net (map Enqueue five_entries @ [Tick])
                            (example_runtime False [], new_world)))) = [] \<and>
   sendBatch_calls (snd (run recovering_net (map Enqueue five_entries @ [Tick])
                           (example_runtime False [], new_world))) = [five_entries] \<and>
   queue (the_queue (fst (run recovering_net (map Enqueue five_entries @ [Tick, Settle])
                            (example_runtime False [], new_world)))) = [] \<and>
   sendBatch_calls (snd (run recovering_net (map Enqueue five_entries @ [Tick, Settle])
                           (example_runtime False [], new_world))) = [five_entries]"
proof -
  have h1: "\<not> isShuttingDown (the_queue (example_runtime False []))"
    and h2: "queue (the_queue (example_runtime False [])) = []"
    and h3: "\<not> flushInProgress (the_flusher (example_runtime False []))"
    and h4: "intervalHandle (the_flusher (example_runtime False [])) \<noteq> None"
    and h5: "five_entries \<noteq> []"
    and h6: "flusher_batchSize (the_flusher (example_runtime False [])) \<le> int (length five_entries)"
    by (simp_all add: example_runtime_def five_entries_def new_BatchFlusher_def)
  have same: "(example_runtime False [])
                \<lparr>the_queue := (the_queue (example_runtime False []))\<lparr>queue := five_entries\<rparr>\<rparr> =
              example_runtime False five_entries"
    by (simp add: example_runtime_def)
  have none: "sendBatch_calls new_world = []"
    by (simp add: sendBatch_calls_def new_world_def)
  show ?thesis
    using threshold_flush_on_tick [OF h1 h2 h3 h4 h5 h6, of recovering_net new_world]
      h1 h2 h3 h4 h5 h6
    by (simp only: same none append_Nil simp_thms)
qed

text \<open>
  C3 as stated fails: five entries enqueued on a running flusher with batch size 5, and
  no timer tick. The queue still holds the five entries and the transport has seen no
  \<open>sendBatch\<close> call.
\<close>

theorem threshold_reached_without_tick:
  "queue (the_queue (fst (run recovering_net (map Enqueue five_entries)
                            (example_runtime False [], new_world)))) = five_entries \<and>
   int (size_q (the_queue (fst (run recovering_net (map Enqueue five_entries)
                                  (example_runtime False [], new_world))))) =
     flusher_batchSize (the_flusher (example_runtime False [])) \<and>
   sendBatch_calls (snd (run recovering_net (map Enqueue five_entries)
                           (example_runtime False [], new_world))) = [] \<and>
   \<not> (queue (the_queue (fst (run recovering_net (map Enqueue five_entries)
                                (example_runtime False [], new_world)))) = [] \<and>
      sendBatch_calls (snd (run recovering_net (map Enqueue five_entries)
                              (example_runtime False [], new_world))) = [five_entries])"
proof -
  have "\<not> isShuttingDown (the_queue (example_runtime False []))"
    by (simp add: example_runtime_def)
  then have "run recovering_net (map Enqueue five_entries) (example_runtime False [], new_world) =
          ((example_runtime False [])
             \<lparr>the_queue := (the_queue (example_runtime False []))
                \<lparr>queue := queue (the_queue (example_runtime False [])) @ five_entries\<rparr>\<rparr>,
           new_world)"
    by (rule run_enqueues)
  then show ?thesis
    by (simp add: example_runtime_def sendBatch_calls_def new_world_def size_q_def
        five_entries_def new_BatchFlusher_def)
qed

section \<open>Properties of the SDK\<close>

text \<open>What \<open>install\<close> builds from a valid configuration with debug mode on.\<close>

lemma installed_debug_sdk_eq:
  "installed_debug_sdk =
     \<lparr>options = None, sdk_logger = Some \<lparr>debugEnabled = True\<rparr>,
      sdk_queue = Some new_BatchQueue,
      sdk_flusher =
        Some ((new_BatchFlusher (example_client True) \<lparr>debugEnabled = True\<rparr> 5)
                \<lparr>intervalHandle := Some FLUSH_INTERVAL_MS, isRunning := True\<rparr>),
      isEnabled = True, sdk_isShuttingDown = False, hooksRegistered = True,
      graceTimer = None\<rparr>"
proof -
  have cfg: "loadEnvironmentConfig any_url debug_env =
               Some \<lparr>apiKey = ''key'', baseUrl = ''https://collector.example'',
                     debug = True, batchSize = 5\<rparr>"
    by code_simp
  show ?thesis
    by (simp add: installed_debug_sdk_def install_def cfg new_LogSentinelSDK_def start_def
        new_BatchFlusher_def new_BatchQueue_def example_client_def
        logger_info_def logger_success_def Let_def)
qed

text \<open>
  What \<open>shutdown\<close> does on an enabled SDK, whoever wins the race: the queue is marked as
  shutting down, the interval timer is stopped, and the grace-period timer is set to
  \<open>SHUTDOWN_GRACE_PERIOD_MS\<close>.
\<close>

lemma shutdown_steps:
  assumes "isEnabled sdk" and "sdk_queue sdk = Some q" and "sdk_flusher sdk = Some f"
  shows "map_option isShuttingDown (sdk_queue (fst (snd (shutdown net winner sdk w)))) = Some True"
    and "map_option intervalHandle (sdk_flusher (fst (snd (shutdown net winner sdk w)))) =
           Some None"
    and "map_option isRunning (sdk_flusher (fst (snd (shutdown net winner sdk w)))) = Some False"
    and "graceTimer (fst (snd (shutdown net winner sdk w))) = Some SHUTDOWN_GRACE_PERIOD_MS"
    and "SHUTDOWN_GRACE_PERIOD_MS = 5000"
proof -
  let ?r0 = "\<lparr>the_queue = q, the_flusher = f\<rparr>"
  obtain r1 suspended w1 where b: "shutdown_begin ?r0 w = ((r1, suspended), w1)"
    by (metis prod.exhaust)
  have r1: "isShuttingDown (the_queue r1)" "intervalHandle (the_flusher r1) = None"
      "\<not> isRunning (the_flusher r1)"
    using b
    by (auto simp: shutdown_begin_def stop_def manualFlush_def flush_def getAndClear_def
        beginShutdown_def split_beta split: if_splits)
  have keep: "intervalHandle (the_flusher (fst (settle net r1 w1))) = intervalHandle (the_flusher r1)"
      "isRunning (the_flusher (fst (settle net r1 w1))) = isRunning (the_flusher r1)"
    by (simp_all add: settle_def flush_resume_def split_beta split: option.splits)
  show "map_option isShuttingDown (sdk_queue (fst (snd (shutdown net winner sdk w)))) = Some True"
    using assms b r1(1) by (simp add: shutdown_def split_beta settle_keeps_queue)
  show "map_option intervalHandle (sdk_flusher (fst (snd (shutdown net winner sdk w)))) =
          Some None"
    using assms b r1(2) by (simp add: shutdown_def split_beta keep)
  show "map_option isRunning (sdk_flusher (fst (snd (shutdown net winner sdk w)))) = Some False"
    using assms b r1(3) by (simp add: shutdown_def split_beta keep)
  show "graceTimer (fst (snd (shutdown net winner sdk w))) = Some SHUTDOWN_GRACE_PERIOD_MS"
    using assms b by (simp add: shutdown_def split_beta)
  show "SHUTDOWN_GRACE_PERIOD_MS = 5000"
    by (simp add: SHUTDOWN_GRACE_PERIOD_MS_def)
qed

text \<open>
  When the grace-period timer wins, the final flush is not cancelled: it stays suspended
  with the records it drained.
\<close>

lemma shutdown_leaves_flush_suspended:
  assumes "isEnabled sdk" and "sdk_queue sdk = Some q" and "sdk_flusher sdk = Some f"
    and "\<not> flushInProgress f" and "queue q \<noteq> []"
  shows "map_option (\<lambda>f. map_option fst (awaiting f))
           (sdk_flusher (fst (snd (shutdown net GraceTimerFiresFirst sdk w)))) =
           Some (Some (queue q))"
    and "map_option flushInProgress
           (sdk_flusher (fst (snd (shutdown net GraceTimerFiresFirst sdk w)))) = Some True"
  using assms
  by (simp_all add: shutdown_def shutdown_begin_def stop_def manualFlush_def flush_def
      getAndClear_def beginShutdown_def split_beta)

text \<open>
  Whenever \<open>shutdown\<close> finds no flush in progress, it reports 0, whoever wins the race
  and whatever the transport does.
\<close>

lemma shutdown_reports_empty_queue:
  assumes "isEnabled sdk" and "sdk_queue sdk = Some q" and "sdk_flusher sdk = Some f"
    and "\<not> flushInProgress f"
  shows "fst (shutdown net winner sdk w) = Some 0"
proof -
  let ?r0 = "\<lparr>the_queue = q, the_flusher = f\<rparr>"
  obtain r1 suspended w1 where b: "shutdown_begin ?r0 w = ((r1, suspended), w1)"
    by (metis prod.exhaust)
  have q1: "queue (the_queue r1) = []"
    using b assms(4)
    by (auto simp: shutdown_begin_def stop_def manualFlush_def flush_def getAndClear_def
        beginShutdown_def split_beta split: if_splits)
  have rep: "fst (shutdown_report q' lg w') = length (queue q')" for q' lg w'
    by (simp add: shutdown_report_def size_q_def Let_def)
  show ?thesis
    using assms(1,2,3) b q1
    by (simp add: shutdown_def split_beta rep settle_keeps_queue)
qed

text \<open>
  C4, at the claim's scenario, with debug mode on so that the log line shows: two
  records enqueued, then \<open>shutdown\<close> with a transport that never answers, so that the
  grace-period timer ends the race. The count reported is 0, not 2, and the line printed
  last says that all logs were flushed: the final flush has drained the queue before it
  waits for the transport. The queue is marked and empty; the two records are held by
  the suspended flush, whose \<open>sendBatch\<close> call has got as far as issuing the request for
  the first record; no \<open>sendLog\<close> call has returned.
\<close>

theorem shutdown_reports_zero_unsent:
  "fst (shutdown silent_net GraceTimerFiresFirst
          (sdk_enqueue two_entries installed_debug_sdk) new_world) = Some 0 \<and>
   sdk_queue (fst (snd (shutdown silent_net GraceTimerFiresFirst
                          (sdk_enqueue two_entries installed_debug_sdk) new_world))) =
     Some \<lparr>queue = [], isShuttingDown = True\<rparr> \<and>
   map_option awaiting
     (sdk_flusher (fst (snd (shutdown silent_net GraceTimerFiresFirst
                               (sdk_enqueue two_entries installed_debug_sdk) new_world)))) =
     Some (Some (two_entries, InFirstCall AwaitsReply)) \<and>
   trace (snd (snd (shutdown silent_net GraceTimerFiresFirst
                      (sdk_enqueue two_entries installed_debug_sdk) new_world))) =
     [SendBatchCalled two_entries, SendLogCalled (example_entry ''/a''),
      Fetch (example_entry ''/a'')] \<and>
   console (snd (snd (shutdown silent_net GraceTimerFiresFirst
                        (sdk_enqueue two_entries installed_debug_sdk) new_world))) =
     [Line LOG (prefix @ '' Batch flusher stopped''),
      Line LOG (prefix @ '' Flushing 2 log entries''),
      Dump ''[LogSentinel DEBUG] Sending batch:'' two_entries,
      Dump ''[LogSentinel DEBUG] Sending log:'' [example_entry ''/a''],
      Line LOG
        (prefix @ '' '' @ check_mark @ '' Shutdown complete. All logs flushed successfully.'')]"
proof -
  let ?a = "example_entry ''/a''"
  let ?c = "example_client True"
  let ?lg = "\<lparr>debugEnabled = True\<rparr>"
  let ?f = "(new_BatchFlusher ?c ?lg 5)\<lparr>intervalHandle := Some FLUSH_INTERVAL_MS, isRunning := True\<rparr>"
  let ?r0 = "\<lparr>the_queue = \<lparr>queue = two_entries, isShuttingDown = False\<rparr>, the_flusher = ?f\<rparr>"
  let ?r1 = "\<lparr>the_queue = \<lparr>queue = two_entries, isShuttingDown = True\<rparr>,
             the_flusher = ?f\<lparr>intervalHandle := None, isRunning := False\<rparr>\<rparr>"
  let ?w1 = "\<lparr>trace = [], console = [Line LOG (prefix @ '' Batch flusher stopped'')]\<rparr>"
  let ?w2 = "\<lparr>trace = [SendBatchCalled two_entries],
             console = [Line LOG (prefix @ '' Batch flusher stopped''),
                        Line LOG (prefix @ '' Flushing 2 log entries'')]\<rparr>"
  let ?w3 = "\<lparr>trace = [SendBatchCalled two_entries, SendLogCalled ?a, Fetch ?a],
             console = [Line LOG (prefix @ '' Batch flusher stopped''),
                        Line LOG (prefix @ '' Flushing 2 log entries''),
                        Dump ''[LogSentinel DEBUG] Sending batch:'' two_entries,
                        Dump ''[LogSentinel DEBUG] Sending log:'' [?a]]\<rparr>"
  let ?r2 = "\<lparr>the_queue = \<lparr>queue = [], isShuttingDown = True\<rparr>,
             the_flusher = ?f\<lparr>intervalHandle := None, isRunning := False,
                              flushInProgress := True,
                              awaiting := Some (two_entries, InFirstCall AwaitsReply)\<rparr>\<rparr>"
  let ?done = "Line LOG (prefix @ '' '' @ check_mark @
                         '' Shutdown complete. All logs flushed successfully.'')"
  have two: "show_nat (length two_entries) = ''2''"
    by code_simp
  have held: "two_entries \<noteq> []"
    by (simp add: two_entries_def)
  have start: "sdk_enqueue two_entries installed_debug_sdk =
                 installed_debug_sdk
                   \<lparr>sdk_queue := Some \<lparr>queue = two_entries, isShuttingDown = False\<rparr>\<rparr>"
    by (simp add: installed_debug_sdk_eq sdk_enqueue_def two_entries_def add_def
        new_BatchQueue_def)
  have stopped: "stop (?r0\<lparr>the_queue := beginShutdown (the_queue ?r0)\<rparr>) new_world = (?r1, ?w1)"
    by (simp add: stop_def beginShutdown_def new_BatchFlusher_def logger_info_def
        print_line_def new_world_def)
  have called: "record_event (SendBatchCalled two_entries)
                  (logger_debug ?lg
                     (''Flushing '' @ show_nat (length two_entries) @ '' log entries'') ?w1) = ?w2"
    unfolding two by (simp add: logger_debug_def print_line_def record_event_def)
  have first: "sendLog_begin ?c ?a w =
                 (AwaitsReply,
                  record_event (Fetch ?a)
                    (print_line (Dump ''[LogSentinel DEBUG] Sending log:'' [?a])
                       (record_event (SendLogCalled ?a) w)))" for w
    by (simp add: sendLog_begin_def example_client_def example_entry_stringifiable)
  have begun: "sendBatch_begin ?c two_entries ?w2 = (InFirstCall AwaitsReply, ?w3)"
  proof -
    have "sendBatch_begin ?c [?a, example_entry ''/b''] w =
            (InFirstCall AwaitsReply,
             record_event (Fetch ?a)
               (print_line (Dump ''[LogSentinel DEBUG] Sending log:'' [?a])
                  (record_event (SendLogCalled ?a)
                     (print_line
                        (Dump ''[LogSentinel DEBUG] Sending batch:'' [?a, example_entry ''/b''])
                        w))))" for w
      by (simp add: sendBatch_begin_def first example_entry_stringifiable)
        (simp add: example_client_def)
    then show ?thesis
      by (simp add: two_entries_def print_line_def record_event_def)
  qed
  have idle: "\<not> flushInProgress (the_flusher ?r1)" and held1: "queue (the_queue ?r1) \<noteq> []"
    using held by (simp_all add: new_BatchFlusher_def)
  have client: "httpClient (the_flusher ?r1) = ?c" "flusher_logger (the_flusher ?r1) = ?lg"
      "queue (the_queue ?r1) = two_entries"
    by (simp_all add: new_BatchFlusher_def)
  have flushed: "manualFlush ?r1 ?w1 = (?r2, ?w3)"
  proof -
    have "fst (flush ?r1 ?w1) = ?r2"
      unfolding flush_idle_nonempty(1) [OF idle held1] client called begun
      by (simp add: new_BatchFlusher_def)
    moreover have "snd (flush ?r1 ?w1) = ?w3"
      unfolding flush_idle_nonempty(2) [OF idle held1] client called begun
      by simp
    ultimately show ?thesis
      unfolding manualFlush_def by (metis prod.collapse)
  qed
  have begun_shutdown: "shutdown_begin ?r0 new_world = ((?r2, True), ?w3)"
    using stopped flushed
    by (simp add: shutdown_begin_def new_BatchFlusher_def beginShutdown_def)
  have report: "shutdown_report (the_queue ?r2) (Some ?lg) ?w3 = (0, print_line ?done ?w3)"
    by (simp add: shutdown_report_def size_q_def logger_success_def)
  have enabled: "isEnabled installed_debug_sdk" "sdk_logger installed_debug_sdk = Some ?lg"
    by (simp_all add: installed_debug_sdk_eq)
  have flusher: "sdk_flusher installed_debug_sdk = Some ?f"
    by (simp add: installed_debug_sdk_eq new_BatchFlusher_def)
  have all: "shutdown silent_net GraceTimerFiresFirst
               (installed_debug_sdk
                  \<lparr>sdk_queue := Some \<lparr>queue = two_entries, isShuttingDown = False\<rparr>\<rparr>)
               new_world =
             (Some 0,
              installed_debug_sdk
                \<lparr>sdk_queue := Some (the_queue ?r2), sdk_flusher := Some (the_flusher ?r2),
                 graceTimer := Some SHUTDOWN_GRACE_PERIOD_MS\<rparr>,
              print_line ?done ?w3)"
    using begun_shutdown report enabled flusher
    by (simp add: shutdown_def)
  show ?thesis
    unfolding start all
    by (simp add: print_line_def)
qed

lemma install_disabled:
  "loadEnvironmentConfig url_parses env = None \<Longrightarrow>
     fst (install url_parses env app_fault sdk w) = sdk"
  by (simp add: install_def)

lemma leading_length_Nil: "leading_length pats [] = 0"
proof -
  have "filter (\<lambda>p. p \<noteq> [] \<and> take (length p) [] = p) pats = []"
    by (induction pats) auto
  then show ?thesis
    by (simp add: leading_length_def)
qed

lemma strip_leading_Nil: "strip_leading pats [] = []"
  by (subst strip_leading.simps) (simp add: leading_length_Nil)

lemma trim_Nil: "trim [] = []"
  by (simp add: trim_def trimEnd_def trimStart_def strip_leading_Nil)

text \<open>The configurations that \<open>loadEnvironmentConfig\<close> rejects.\<close>

lemma loadEnvironmentConfig_None_iff:
  "loadEnvironmentConfig url_parses env = None \<longleftrightarrow>
     (case LOGSENTINEL_API_KEY env of
        None \<Rightarrow> True
      | Some key \<Rightarrow>
          trim key = [] \<or>
          (case LOGSENTINEL_BASE_URL env of
             None \<Rightarrow> True
           | Some base \<Rightarrow> trim base = [] \<or> \<not> url_parses base))"
proof (cases "LOGSENTINEL_API_KEY env")
  case None
  then show ?thesis
    by (simp add: loadEnvironmentConfig_def)
next
  case key: (Some key)
  show ?thesis
  proof (cases "LOGSENTINEL_BASE_URL env")
    case None
    then show ?thesis
      using key by (simp add: loadEnvironmentConfig_def)
  next
    case base: (Some base)
    have "key = [] \<or> trim key = [] \<longleftrightarrow> trim key = []"
      "base = [] \<or> trim base = [] \<longleftrightarrow> trim base = []"
      using trim_Nil by auto
    then show ?thesis
      using key base by (simp add: loadEnvironmentConfig_def)
  qed
qed

text \<open>
  C10. \<open>getQueueSize\<close> returns 0 when no queue exists: on an SDK on which \<open>install\<close> was
  never called, and after an \<open>install\<close> that found the configuration missing or invalid
  and returned without creating one.
\<close>

theorem getQueueSize_without_queue:
  "getQueueSize (new_LogSentinelSDK opts) = 0 \<and>
   (loadEnvironmentConfig url_parses env = None \<longrightarrow>
      getQueueSize (fst (install url_parses env app_fault (new_LogSentinelSDK opts) w)) = 0) \<and>
   (sdk_queue sdk = None \<longrightarrow> getQueueSize sdk = 0)"
  by (simp add: install_disabled getQueueSize_def new_LogSentinelSDK_def)

theorem getQueueSize_without_queue_witness:
  "loadEnvironmentConfig any_url env_without_key = None \<and>
   sdk_queue (new_LogSentinelSDK None) = None \<and>
   getQueueSize (new_LogSentinelSDK None) = 0 \<and>
   getQueueSize (fst (install any_url env_without_key None (new_LogSentinelSDK None) new_world)) = 0"
proof -
  have bad: "loadEnvironmentConfig any_url env_without_key = None"
    by (simp add: loadEnvironmentConfig_def env_without_key_def example_env_def)
  have none: "sdk_queue (new_LogSentinelSDK None) = None"
    by (simp add: new_LogSentinelSDK_def)
  show ?thesis
    using getQueueSize_without_queue [of None any_url env_without_key None new_world
        "new_LogSentinelSDK None"] bad none
    by simp
qed

end
